theory Spec2Isabelle
  imports Complex_Main "HOL-Library.AList"
begin

section \<open>JavaScript values and strings\<close>

text \<open>
  The content script of the extension (the third file inside \<^verbatim>\<open>src/popup.js\<close>) is
  embedded function by function. A JavaScript string is a \<^typ>\<open>string\<close>, one
  \<^typ>\<open>char\<close> for each code unit (code units above 255 are not represented). The values
  that reach the script through a message are of type \<open>jsval\<close>; numbers are the integral
  ones.
\<close>

datatype jsval = JUndefined | JNull | JBool bool | JNum int | JStr string

text \<open>The decimal numeral of a natural number, which is what \<^verbatim>\<open>String\<close> gives for it.\<close>

definition digit_char :: "nat \<Rightarrow> char" where
  "digit_char d = char_of (48 + d)"

function decimal :: "nat \<Rightarrow> string" where
  "decimal n = (if n < 10 then [digit_char n] else decimal (n div 10) @ [digit_char (n mod 10)])"
  by pat_completeness auto
termination
  by (relation "measure id") auto

declare decimal.simps [simp del]

definition String_int :: "int \<Rightarrow> string" where
  "String_int i = (if i < 0 then CHR ''-'' # decimal (nat (- i)) else decimal (nat i))"

text \<open>\<^verbatim>\<open>String(v)\<close> and the conversion of a template literal.\<close>

fun String_js :: "jsval \<Rightarrow> string" where
  "String_js JUndefined = ''undefined''"
| "String_js JNull = ''null''"
| "String_js (JBool b) = (if b then ''true'' else ''false'')"
| "String_js (JNum i) = String_int i"
| "String_js (JStr s) = s"

text \<open>
  What the script throws. The first five are the \<^verbatim>\<open>new Error(...)\<close> of
  \<^verbatim>\<open>resolveTarget\<close>, one constructor for each throw; the other two are raised by the
  page's own functions (an invalid selector or path expression) and by the language (a
  property of \<^verbatim>\<open>null\<close>, an iteration over something that is not iterable).
\<close>

datatype error =
    TargetRequired
  | NoElementWithMark jsval
  | NoElementMatching jsval
  | NoElementAtXPath jsval
  | TargetWithoutKey
  | SyntaxError string
  | TypeError string

definition dquote :: string where
  "dquote = [CHR 0x22]"

text \<open>\<^verbatim>\<open>err.message\<close>\<close>

fun message :: "error \<Rightarrow> string" where
  "message TargetRequired = ''target is required''"
| "message (NoElementWithMark m) = ''No element with mark '' @ String_js m"
| "message (NoElementMatching s) = ''No element matching '' @ dquote @ String_js s @ dquote"
| "message (NoElementAtXPath x) = ''No element at XPath '' @ dquote @ String_js x @ dquote"
| "message TargetWithoutKey = ''target must have mark, selector, or xpath''"
| "message (SyntaxError m) = m"
| "message (TypeError m) = m"

text \<open>Truthiness of a value.\<close>

fun truthy_js :: "jsval \<Rightarrow> bool" where
  "truthy_js JUndefined = False"
| "truthy_js JNull = False"
| "truthy_js (JBool b) = b"
| "truthy_js (JNum i) = (i \<noteq> 0)"
| "truthy_js (JStr s) = (s \<noteq> [])"

text \<open>
  An optional argument object: left out (the default applies), \<^verbatim>\<open>null\<close> (no default
  applies, and reading a property of it throws), or given.
\<close>

datatype 'a param = Omitted | Null | Given 'a

text \<open>White space as \<^verbatim>\<open>trim\<close> and the class \<^verbatim>\<open>\s\<close> see it, among the code units below 256.\<close>

definition is_space :: "char \<Rightarrow> bool" where
  "is_space c = (of_char c \<in> {9, 10, 11, 12, 13, 32, 160 :: nat})"

definition trim :: "string \<Rightarrow> string" where
  "trim s = rev (dropWhile is_space (rev (dropWhile is_space s)))"

definition lower_char :: "char \<Rightarrow> char" where
  "lower_char c = (let n = of_char c :: nat in if 65 \<le> n \<and> n \<le> 90 then char_of (n + 32) else c)"

definition toLowerCase :: "string \<Rightarrow> string" where
  "toLowerCase s = map lower_char s"

text \<open>\<^verbatim>\<open>s.split(/\s+/)\<close>: the pieces between the maximal runs of white space.\<close>

function split_spaces :: "string \<Rightarrow> string list" where
  "split_spaces s =
     (case dropWhile (\<lambda>c. \<not> is_space c) s of
        [] \<Rightarrow> [s]
      | r # rs \<Rightarrow> takeWhile (\<lambda>c. \<not> is_space c) s # split_spaces (dropWhile is_space rs))"
  by pat_completeness auto
termination
proof (relation "measure length")
  show "wf (measure length)" by simp
next
  fix s :: string and r rs
  assume a: "dropWhile (\<lambda>c. \<not> is_space c) s = r # rs"
  have "length (dropWhile is_space rs) \<le> length rs"
    by (rule length_dropWhile_le)
  moreover have "length (r # rs) \<le> length s"
    using length_dropWhile_le [of "\<lambda>c. \<not> is_space c" s] a by simp
  ultimately show "(dropWhile is_space rs, s) \<in> measure length"
    by simp
qed

declare split_spaces.simps [simp del]

text \<open>
  \<^verbatim>\<open>a || b\<close> on values that are a string or \<^verbatim>\<open>null\<close>/\<^verbatim>\<open>undefined\<close>: the empty string is
  falsy, so the chain moves on.
\<close>

definition truthy :: "string option \<Rightarrow> bool" where
  "truthy a = (case a of None \<Rightarrow> False | Some s \<Rightarrow> s \<noteq> [])"

definition or_else :: "string option \<Rightarrow> string option \<Rightarrow> string option" where
  "or_else a b = (if truthy a then a else b)"

text \<open>\<^verbatim>\<open>Math.round\<close> on a rational: half-way cases go up.\<close>

definition Math_round :: "rat \<Rightarrow> int" where
  "Math_round q = \<lfloor>q + 1 / 2\<rfloor>"

section \<open>The page tree\<close>

text \<open>
  An element is referred to by its path from the document element: the list of child
  indices, text nodes counted. The fields of \<open>edata\<close> are the attributes and the
  properties of an HTML element that the script reads or writes; \<^verbatim>\<open>el.id\<close> and
  \<^verbatim>\<open>el.className\<close> reflect the attributes \<^verbatim>\<open>id\<close> and \<^verbatim>\<open>class\<close>. The rendered box and
  the computed style are properties of the element here: they do not change when the
  script writes an attribute.
\<close>

type_synonym path = "nat list"

record option_data =
  opt_value :: string
  opt_text :: string
  opt_selected :: bool

record edata =
  tagName :: string
  attributes :: "(string \<times> string) list"
  rect_x :: rat
  rect_y :: rat
  rect_width :: rat
  rect_height :: rat
  style_visibility :: string
  style_display :: string
  style_opacity :: string
  el_value :: jsval
  el_type :: jsval
  el_checked :: jsval
  el_href :: jsval
  el_labels :: "path list option"
  el_options :: "option_data list option"
  el_multiple :: bool
  isContentEditable :: bool

datatype element = Element edata "child list"
and child = ElementNode element | TextNode string

fun edata_of :: "element \<Rightarrow> edata" where
  "edata_of (Element e cs) = e"

fun childNodes :: "element \<Rightarrow> child list" where
  "childNodes (Element e cs) = cs"

fun element_children :: "child list \<Rightarrow> element list" where
  "element_children [] = []"
| "element_children (TextNode s # cs) = element_children cs"
| "element_children (ElementNode el # cs) = el # element_children cs"

text \<open>\<^verbatim>\<open>el.children\<close>: the element children, in document order.\<close>

definition children :: "element \<Rightarrow> element list" where
  "children el = element_children (childNodes el)"

fun textContent :: "element \<Rightarrow> string" and text_of_nodes :: "child list \<Rightarrow> string" where
  "textContent (Element e cs) = text_of_nodes cs"
| "text_of_nodes [] = []"
| "text_of_nodes (TextNode s # cs) = s @ text_of_nodes cs"
| "text_of_nodes (ElementNode el # cs) = textContent el @ text_of_nodes cs"

definition getAttribute :: "edata \<Rightarrow> string \<Rightarrow> string option" where
  "getAttribute e a = map_of (attributes e) a"

definition setAttribute :: "string \<Rightarrow> string \<Rightarrow> edata \<Rightarrow> edata" where
  "setAttribute a v e = e\<lparr>attributes := AList.update a v (attributes e)\<rparr>"

definition removeAttribute :: "string \<Rightarrow> edata \<Rightarrow> edata" where
  "removeAttribute a e = e\<lparr>attributes := AList.delete a (attributes e)\<rparr>"

fun get :: "element \<Rightarrow> path \<Rightarrow> element option" where
  "get el [] = Some el"
| "get (Element e cs) (i # p) =
     (if i < length cs then (case cs ! i of ElementNode c \<Rightarrow> get c p | TextNode s \<Rightarrow> None)
      else None)"

text \<open>All elements of a subtree in document order, the root of the subtree first.\<close>

fun elems :: "element \<Rightarrow> path list" and elems_from :: "nat \<Rightarrow> child list \<Rightarrow> path list" where
  "elems (Element e cs) = [] # elems_from 0 cs"
| "elems_from i [] = []"
| "elems_from i (TextNode s # cs) = elems_from (Suc i) cs"
| "elems_from i (ElementNode el # cs) = map ((#) i) (elems el) @ elems_from (Suc i) cs"

text \<open>Replacing the element at a path; a path that leads nowhere changes nothing.\<close>

fun modify :: "path \<Rightarrow> (element \<Rightarrow> element) \<Rightarrow> element \<Rightarrow> element" where
  "modify [] f el = f el"
| "modify (i # p) f (Element e cs) =
     (if i < length cs
      then (case cs ! i of
              ElementNode c \<Rightarrow> Element e (cs[i := ElementNode (modify p f c)])
            | TextNode s \<Rightarrow> Element e cs)
      else Element e cs)"

fun map_edata :: "(edata \<Rightarrow> edata) \<Rightarrow> element \<Rightarrow> element" where
  "map_edata f (Element e cs) = Element (f e) cs"

definition update_at :: "path \<Rightarrow> (edata \<Rightarrow> edata) \<Rightarrow> element \<Rightarrow> element" where
  "update_at p f d = modify p (map_edata f) d"

definition data_at :: "element \<Rightarrow> path \<Rightarrow> edata option" where
  "data_at d p = map_option edata_of (get d p)"

section \<open>Constants of the content script\<close>

definition MARK_ATTR :: string where
  "MARK_ATTR = ''data-openclaw-mark''"

definition MARK_STYLE_ID :: string where
  "MARK_STYLE_ID = ''__openclaw_mark_styles''"

definition INTERACTIVE_TAGS :: "string list" where
  "INTERACTIVE_TAGS =
     [''A'', ''BUTTON'', ''INPUT'', ''SELECT'', ''TEXTAREA'', ''LABEL'',
      ''DETAILS'', ''SUMMARY'', ''VIDEO'', ''AUDIO'']"

text \<open>
  \<^verbatim>\<open>SEMANTIC_ROLES[tag]\<close> is a property lookup on an object literal. The tag name of an
  HTML element is in upper case, so no inherited property of the object is ever hit,
  and the lookup is the one of the table.
\<close>

definition SEMANTIC_ROLES :: "(string \<times> string) list" where
  "SEMANTIC_ROLES =
     [(''A'', ''link''), (''BUTTON'', ''button''), (''INPUT'', ''textbox''),
      (''SELECT'', ''combobox''), (''TEXTAREA'', ''textbox''), (''FORM'', ''form''),
      (''NAV'', ''navigation''), (''MAIN'', ''main''), (''HEADER'', ''banner''),
      (''FOOTER'', ''contentinfo''), (''ASIDE'', ''complementary''),
      (''SECTION'', ''region''), (''ARTICLE'', ''article''),
      (''H1'', ''heading''), (''H2'', ''heading''), (''H3'', ''heading''),
      (''H4'', ''heading''), (''H5'', ''heading''), (''H6'', ''heading''),
      (''UL'', ''list''), (''OL'', ''list''), (''LI'', ''listitem''),
      (''TABLE'', ''table''), (''TR'', ''row''), (''TH'', ''columnheader''),
      (''TD'', ''cell'')]"

section \<open>Visibility\<close>

definition isVisible :: "edata \<Rightarrow> bool" where
  "isVisible e =
     (if rect_width e = 0 \<or> rect_height e = 0 then False
      else style_visibility e \<noteq> ''hidden'' \<and> style_display e \<noteq> ''none''
           \<and> style_opacity e \<noteq> ''0'')"

section \<open>Element descriptors\<close>

record descriptor =
  d_tag :: string
  d_id :: "string option"
  d_classes :: "string list"
  d_role :: "string option"
  d_label :: "string option"
  d_mark :: "string option"
  d_value :: jsval
  d_checked :: jsval
  d_href :: jsval
  d_visible :: bool
  d_rect :: "int \<times> int \<times> int \<times> int"

text \<open>\<^verbatim>\<open>el.labels && el.labels[0]?.textContent?.trim()\<close>, as a string or nothing.\<close>

definition first_label_text :: "element \<Rightarrow> edata \<Rightarrow> string option" where
  "first_label_text d e =
     (case el_labels e of
        None \<Rightarrow> None
      | Some [] \<Rightarrow> None
      | Some (l # ls) \<Rightarrow> map_option (\<lambda>lab. trim (textContent lab)) (get d l))"

text \<open>\<^verbatim>\<open>v ?? null\<close>\<close>

definition nullish_to_null :: "jsval \<Rightarrow> jsval" where
  "nullish_to_null v = (if v = JUndefined then JNull else v)"

text \<open>The first argument is the document element, which the label references point into.\<close>

definition describeElement :: "element \<Rightarrow> element \<Rightarrow> descriptor" where
  "describeElement d el =
     (let e = edata_of el;
          tag = tagName e;
          role = or_else (getAttribute e ''role'') (or_else (map_of SEMANTIC_ROLES tag) None);
          label =
            or_else (getAttribute e ''aria-label'')
           (or_else (getAttribute e ''aria-labelledby'')
           (or_else (getAttribute e ''title'')
           (or_else (getAttribute e ''placeholder'')
           (or_else (first_label_text d e)
           (or_else (Some (take 80 (trim (textContent el))))
            None)))));
          className = (case getAttribute e ''class'' of None \<Rightarrow> [] | Some c \<Rightarrow> c)
      in \<lparr> d_tag = tag,
           d_id = or_else (getAttribute e ''id'') None,
           d_classes = (if className \<noteq> [] then split_spaces (trim className) else []),
           d_role = role,
           d_label = label,
           d_mark = or_else (getAttribute e MARK_ATTR) None,
           d_value = nullish_to_null (el_value e),
           d_checked = (if el_type e = JStr ''checkbox'' \<or> el_type e = JStr ''radio''
                        then el_checked e else JUndefined),
           d_href = nullish_to_null (el_href e),
           d_visible = isVisible e,
           d_rect = (Math_round (rect_x e), Math_round (rect_y e),
                     Math_round (rect_width e), Math_round (rect_height e)) \<rparr>)"

section \<open>The accessibility tree\<close>

datatype a11y =
  A11yNode (a_role: string) (a_name: "string option") (a_tag: string)
           (a_mark: "string option") (a_children: "a11y list")

text \<open>The name as \<^verbatim>\<open>buildA11yNode\<close> computes it.\<close>

definition a11y_name :: "element \<Rightarrow> string option" where
  "a11y_name el =
     (let e = edata_of el in
        or_else (getAttribute e ''aria-label'')
       (or_else (getAttribute e ''title'')
       (or_else (getAttribute e ''placeholder'')
       (or_else (Some (take 80 (trim (textContent el))))
        None))))"

text \<open>
  The role chain ends in \<^verbatim>\<open>tag.toLowerCase()\<close>, which is returned whatever it is, so the
  role is always a string.
\<close>

definition a11y_role :: "edata \<Rightarrow> string" where
  "a11y_role e =
     (case or_else (getAttribute e ''role'') (map_of SEMANTIC_ROLES (tagName e)) of
        Some r \<Rightarrow> if r \<noteq> [] then r else toLowerCase (tagName e)
      | None \<Rightarrow> toLowerCase (tagName e))"

fun buildA11yNode :: "element \<Rightarrow> int \<Rightarrow> int \<Rightarrow> a11y option"
  and buildA11yChildren :: "child list \<Rightarrow> int \<Rightarrow> int \<Rightarrow> a11y list" where
  "buildA11yNode (Element e cs) depth maxDepth =
     (if depth > maxDepth then None
      else
        let tag = tagName e;
            role = a11y_role e;
            name = a11y_name (Element e cs);
            mark = or_else (getAttribute e MARK_ATTR) None
        in if getAttribute e ''aria-hidden'' = Some ''true'' then None
           else if \<not> isVisible e \<and> depth > 0 then None
           else
             let kids = buildA11yChildren cs (depth + 1) maxDepth
             in if \<not> truthy name \<and> length kids = 0 \<and> tag \<notin> set INTERACTIVE_TAGS then None
                else Some (A11yNode role name tag mark kids))"
| "buildA11yChildren [] depth maxDepth = []"
| "buildA11yChildren (TextNode s # cs) depth maxDepth = buildA11yChildren cs depth maxDepth"
| "buildA11yChildren (ElementNode el # cs) depth maxDepth =
     (case buildA11yNode el depth maxDepth of
        None \<Rightarrow> buildA11yChildren cs depth maxDepth
      | Some childNode \<Rightarrow> childNode # buildA11yChildren cs depth maxDepth)"


section \<open>The page\<close>

text \<open>
  What the script does to the page beyond writing attributes and properties is recorded
  as a list of effects, oldest first: the events it dispatches, the calls to
  \<^verbatim>\<open>focus\<close>, \<^verbatim>\<open>scrollIntoView\<close> and \<^verbatim>\<open>scrollBy\<close>, and the insertion of text at the
  caret. How the page reacts to them (listeners, default actions, scrolling) is not part
  of the script and is not modelled; delays only pass time.
\<close>

datatype effect =
    Dispatched path string
  | Focused path
  | ScrolledIntoView path string
  | ScrolledBy rat rat string
  | InsertedAtCaret string

record page =
  document :: element
  location_href :: string
  document_title :: string
  readyState :: string
  innerWidth :: rat
  innerHeight :: rat
  scrollX :: rat
  scrollY :: rat
  rangeCount :: nat
  effects :: "effect list"

text \<open>\<^verbatim>\<open>document.body\<close>: the first body or frameset child of the html element.\<close>

definition document_body :: "element \<Rightarrow> element option" where
  "document_body d =
     (if tagName (edata_of d) = ''HTML''
      then find (\<lambda>c. tagName (edata_of c) = ''BODY'' \<or> tagName (edata_of c) = ''FRAMESET'')
             (children d)
      else None)"

record a11y_result =
  r_url :: string
  r_title :: string
  r_tree :: "a11y option"

text \<open>The argument is \<^verbatim>\<open>message.maxDepth\<close>; when it is undefined the default 8 applies.\<close>

definition getAccessibilityTree :: "page \<Rightarrow> int option \<Rightarrow> a11y_result" where
  "getAccessibilityTree pg maxDepth =
     (let m = (case maxDepth of None \<Rightarrow> 8 | Some k \<Rightarrow> k);
          root = (case document_body (document pg) of Some b \<Rightarrow> b | None \<Rightarrow> document pg)
      in \<lparr> r_url = location_href pg,
           r_title = document_title pg,
           r_tree = buildA11yNode root 0 m \<rparr>)"

section \<open>Example pages\<close>

definition html_element :: "string \<Rightarrow> (string \<times> string) list \<Rightarrow> edata" where
  "html_element tag attrs =
     \<lparr> tagName = tag, attributes = attrs,
       rect_x = 0, rect_y = 0, rect_width = 100, rect_height = 20,
       style_visibility = ''visible'', style_display = ''block'', style_opacity = ''1'',
       el_value = JUndefined, el_type = JUndefined, el_checked = JUndefined,
       el_href = JUndefined, el_labels = None, el_options = None, el_multiple = False,
       isContentEditable = False \<rparr>"

definition page_of :: "element \<Rightarrow> page" where
  "page_of d =
     \<lparr> document = d, location_href = ''https://example.test/'', document_title = ''Example'',
       readyState = ''complete'', innerWidth = 800, innerHeight = 600,
       scrollX = 0, scrollY = 0, rangeCount = 0, effects = [] \<rparr>"

text \<open>A document whose body is empty.\<close>

definition empty_body_page :: page where
  "empty_body_page =
     page_of (Element (html_element ''HTML'' [])
       [ElementNode (Element (html_element ''HEAD'' []) []),
        ElementNode (Element (html_element ''BODY'' []) [])])"

text \<open>A document whose body holds a paragraph of text.\<close>

definition text_body_page :: page where
  "text_body_page =
     page_of (Element (html_element ''HTML'' [])
       [ElementNode (Element (html_element ''HEAD'' []) []),
        ElementNode (Element (html_element ''BODY'' [])
          [ElementNode (Element (html_element ''P'' []) [TextNode ''Hello'']) ])])"

text \<open>A button that refers to its label by id and has a text of its own.\<close>

definition labelled_button :: element where
  "labelled_button =
     Element (html_element ''BUTTON'' [(''aria-labelledby'', ''caption'')]) [TextNode ''Send'']"

definition titled_button :: element where
  "titled_button =
     Element (html_element ''BUTTON'' [(''title'', ''Send the form'')]) [TextNode ''Send'']"


section \<open>Selectors\<close>

text \<open>
  The selector and path-expression engines belong to the browser. For the text of a
  selector they give nothing when the text is not valid (the page's function then throws
  a \<^verbatim>\<open>SyntaxError\<close>), and otherwise the test that decides, for the document and the
  path of an element in it, whether the element matches. The selectors that the script
  writes out itself are read by their meaning in an HTML document.
\<close>

record engine =
  css :: "string \<Rightarrow> (element \<Rightarrow> path \<Rightarrow> bool) option"
  xpath :: "string \<Rightarrow> (element \<Rightarrow> path \<Rightarrow> bool) option"

datatype root = DocumentRoot | ElementRoot path

text \<open>
  The elements that \<^verbatim>\<open>root.querySelectorAll\<close> ranges over, in document order: all
  elements of the document, or the descendants of an element (the element itself is
  not one of them).
\<close>

definition scope :: "element \<Rightarrow> root \<Rightarrow> path list" where
  "scope d r =
     (case r of
        DocumentRoot \<Rightarrow> elems d
      | ElementRoot p \<Rightarrow> (case get d p of None \<Rightarrow> [] | Some el \<Rightarrow> map ((@) p) (tl (elems el))))"

definition holds :: "element \<Rightarrow> (edata \<Rightarrow> bool) \<Rightarrow> path \<Rightarrow> bool" where
  "holds d P p = (case data_at d p of None \<Rightarrow> False | Some e \<Rightarrow> P e)"

definition invalid_selector :: "string \<Rightarrow> error" where
  "invalid_selector s = SyntaxError (CHR 0x27 # s @ [CHR 0x27] @ '' is not a valid selector.'')"

definition invalid_xpath :: "string \<Rightarrow> error" where
  "invalid_xpath s = SyntaxError (''The string '' @ [CHR 0x27] @ s @ [CHR 0x27] @ '' is not a valid XPath expression.'')"

definition querySelectorAll :: "engine \<Rightarrow> element \<Rightarrow> root \<Rightarrow> string \<Rightarrow> error + path list" where
  "querySelectorAll B d r s =
     (case css B s of
        None \<Rightarrow> Inl (invalid_selector s)
      | Some matches \<Rightarrow> Inr (filter (matches d) (scope d r)))"

text \<open>\<^verbatim>\<open>document.querySelector\<close>: the first match or \<^verbatim>\<open>null\<close>.\<close>

definition first_of :: "'a list \<Rightarrow> 'a option" where
  "first_of xs = (case xs of [] \<Rightarrow> None | x # _ \<Rightarrow> Some x)"

definition querySelector :: "engine \<Rightarrow> element \<Rightarrow> string \<Rightarrow> error + path option" where
  "querySelector B d s = map_sum id first_of (querySelectorAll B d DocumentRoot s)"

text \<open>
  \<^verbatim>\<open>document.evaluate(x, document, null, FIRST_ORDERED_NODE_TYPE, null).singleNodeValue\<close>,
  for path expressions that select elements.
\<close>

definition evaluate_first :: "engine \<Rightarrow> element \<Rightarrow> string \<Rightarrow> error + path option" where
  "evaluate_first B d x =
     (case xpath B x of
        None \<Rightarrow> Inl (invalid_xpath x)
      | Some matches \<Rightarrow> Inr (first_of (filter (matches d) (elems d))))"

text \<open>The selector \<^verbatim>\<open>[data-openclaw-mark]\<close>.\<close>

definition has_mark :: "edata \<Rightarrow> bool" where
  "has_mark e = (getAttribute e MARK_ATTR \<noteq> None)"

text \<open>
  The selector list of \<^verbatim>\<open>getInteractiveElements\<close>: the interactive tags as type
  selectors, six roles, \<^verbatim>\<open>[contenteditable="true"]\<close> and \<^verbatim>\<open>[tabindex]\<close>.
\<close>

definition interactive_selector :: "edata \<Rightarrow> bool" where
  "interactive_selector e =
     (tagName e \<in> set INTERACTIVE_TAGS
      \<or> getAttribute e ''role'' \<in> Some ` set [''button'', ''link'', ''checkbox'', ''radio'', ''tab'', ''menuitem'']
      \<or> getAttribute e ''contenteditable'' = Some ''true''
      \<or> getAttribute e ''tabindex'' \<noteq> None)"

text \<open>
  The mark of a target is spliced between double quotes into
  \<^verbatim>\<open>[data-openclaw-mark="..."]\<close>. When the text needs no escaping inside a quoted string
  of a selector (no quote, backslash, line break or NUL), the selector tests the
  attribute for equality with the text; any other text goes to the engine as it is.
\<close>

definition plain_css_string :: "string \<Rightarrow> bool" where
  "plain_css_string s = (\<forall>c \<in> set s. of_char c \<notin> {0, 10, 12, 13, 34, 92 :: nat})"

definition mark_selector :: "string \<Rightarrow> string" where
  "mark_selector m = ''['' @ MARK_ATTR @ ''='' @ dquote @ m @ dquote @ '']''"

definition query_mark :: "engine \<Rightarrow> element \<Rightarrow> string \<Rightarrow> error + path option" where
  "query_mark B d m =
     (if plain_css_string m
      then Inr (first_of (filter (holds d (\<lambda>e. getAttribute e MARK_ATTR = Some m)) (elems d)))
      else querySelector B d (mark_selector m))"

section \<open>Set-of-Mark labelling\<close>

text \<open>Returns visible interactive elements within a root.\<close>

definition getInteractiveElements :: "element \<Rightarrow> root \<Rightarrow> path list" where
  "getInteractiveElements d r =
     filter (holds d isVisible) (filter (holds d interactive_selector) (scope d r))"

definition clearSetOfMarks :: "root \<Rightarrow> element \<Rightarrow> element" where
  "clearSetOfMarks r d =
     fold (\<lambda>el. update_at el (removeAttribute MARK_ATTR)) (filter (holds d has_mark) (scope d r)) d"

definition getElementById :: "element \<Rightarrow> string \<Rightarrow> path option" where
  "getElementById d i = find (holds d (\<lambda>e. getAttribute e ''id'' = Some i)) (elems d)"

text \<open>\<^verbatim>\<open>document.head\<close>: the first head child of the html element.\<close>

definition is_head :: "child \<Rightarrow> bool" where
  "is_head c = (case c of ElementNode el \<Rightarrow> tagName (edata_of el) = ''HEAD'' | TextNode s \<Rightarrow> False)"

definition document_head :: "element \<Rightarrow> path option" where
  "document_head d =
     (if tagName (edata_of d) = ''HTML''
      then map_option (\<lambda>i. [i]) (find (\<lambda>i. is_head (childNodes d ! i)) [0..<length (childNodes d)])
      else None)"

definition newline :: string where
  "newline = [CHR 0x0A]"

text \<open>The text of the overlay style sheet, with the attribute name filled in.\<close>

definition mark_style_text :: string where
  "mark_style_text = concat
     [newline,
      ''      ['', MARK_ATTR, '']::before {'', newline,
      ''        content: attr('', MARK_ATTR, '');'', newline,
      ''        position: absolute;'', newline,
      ''        top: -8px;'', newline,
      ''        left: -2px;'', newline,
      ''        z-index: 2147483647;'', newline,
      ''        background: #1a73e8;'', newline,
      ''        color: #fff;'', newline,
      ''        font: bold 10px/14px monospace;'', newline,
      ''        padding: 1px 4px;'', newline,
      ''        border-radius: 3px;'', newline,
      ''        pointer-events: none;'', newline,
      ''        white-space: nowrap;'', newline,
      ''      }'', newline,
      ''      ['', MARK_ATTR, ''] {'', newline,
      ''        position: relative;'', newline,
      ''        outline: 2px solid #1a73e8 !important;'', newline,
      ''        outline-offset: 1px;'', newline,
      ''      }'', newline,
      ''    '']"

text \<open>A style element is not rendered: its box is empty and its display is none.\<close>

definition style_element :: element where
  "style_element =
     Element
       \<lparr> tagName = ''STYLE'', attributes = [(''id'', MARK_STYLE_ID)],
         rect_x = 0, rect_y = 0, rect_width = 0, rect_height = 0,
         style_visibility = ''visible'', style_display = ''none'', style_opacity = ''1'',
         el_value = JUndefined, el_type = JStr [], el_checked = JUndefined,
         el_href = JUndefined, el_labels = None, el_options = None, el_multiple = False,
         isContentEditable = False \<rparr>
       [TextNode mark_style_text]"

fun appendChild :: "child \<Rightarrow> element \<Rightarrow> element" where
  "appendChild c (Element e cs) = Element e (cs @ [c])"

text \<open>Injects the overlay CSS once.\<close>

definition ensureMarkStyles :: "element \<Rightarrow> element" where
  "ensureMarkStyles d =
     (if getElementById d MARK_STYLE_ID \<noteq> None then d
      else modify (case document_head d of Some h \<Rightarrow> h | None \<Rightarrow> [])
             (appendChild (ElementNode style_element)) d)"

text \<open>
  The loop of \<^verbatim>\<open>applySetOfMarks\<close>: \<open>idx\<close> is the index of the first element of the list,
  and \<^verbatim>\<open>String(idx + 1)\<close> is the decimal numeral of \<open>idx + 1\<close>. The mark map keeps its keys
  in the order of insertion, as a \<^verbatim>\<open>Map\<close> does.
\<close>

fun mark_each :: "path list \<Rightarrow> nat \<Rightarrow> element \<times> (string \<times> path) list \<Rightarrow> element \<times> (string \<times> path) list" where
  "mark_each [] idx s = s"
| "mark_each (el # els) idx (d, markMap) =
     (let mark = decimal (idx + 1)
      in mark_each els (idx + 1)
           (update_at el (setAttribute MARK_ATTR mark) d, AList.update mark el markMap))"

definition applySetOfMarks :: "root \<Rightarrow> element \<Rightarrow> element \<times> (string \<times> path) list" where
  "applySetOfMarks r d =
     (let d1 = clearSetOfMarks r d;
          d2 = ensureMarkStyles d1;
          elements = getInteractiveElements d2 r
      in mark_each elements 0 (d2, []))"

section \<open>Resolving a target\<close>

text \<open>
  A target object with its three keys; a key that is not set is \<^verbatim>\<open>undefined\<close>. No target
  at all stands for any falsy value in its place.
\<close>

record target =
  t_mark :: jsval
  t_selector :: jsval
  t_xpath :: jsval

definition is_string_or_number :: "jsval \<Rightarrow> bool" where
  "is_string_or_number v = (case v of JStr s \<Rightarrow> True | JNum i \<Rightarrow> True | _ \<Rightarrow> False)"

definition resolveTarget :: "engine \<Rightarrow> element \<Rightarrow> target option \<Rightarrow> error + path" where
  "resolveTarget B d tg =
     (case tg of
        None \<Rightarrow> Inl TargetRequired
      | Some t \<Rightarrow>
          if is_string_or_number (t_mark t) then
            (case query_mark B d (String_js (t_mark t)) of
               Inl err \<Rightarrow> Inl err
             | Inr None \<Rightarrow> Inl (NoElementWithMark (t_mark t))
             | Inr (Some el) \<Rightarrow> Inr el)
          else if truthy_js (t_selector t) then
            (case querySelector B d (String_js (t_selector t)) of
               Inl err \<Rightarrow> Inl err
             | Inr None \<Rightarrow> Inl (NoElementMatching (t_selector t))
             | Inr (Some el) \<Rightarrow> Inr el)
          else if truthy_js (t_xpath t) then
            (case evaluate_first B d (String_js (t_xpath t)) of
               Inl err \<Rightarrow> Inl err
             | Inr None \<Rightarrow> Inl (NoElementAtXPath (t_xpath t))
             | Inr (Some el) \<Rightarrow> Inr el)
          else Inl TargetWithoutKey)"


section \<open>Element interaction\<close>

text \<open>
  The element behind a reference. A reference that the script holds always denotes an
  element of the document, so the second case does not arise.
\<close>

definition element_at :: "element \<Rightarrow> path \<Rightarrow> element" where
  "element_at d p = (case get d p of Some el \<Rightarrow> el | None \<Rightarrow> d)"

definition emit :: "effect list \<Rightarrow> page \<Rightarrow> page" where
  "emit es pg = pg\<lparr>effects := effects pg @ es\<rparr>"

definition describe :: "page \<Rightarrow> path \<Rightarrow> descriptor" where
  "describe pg el = describeElement (document pg) (element_at (document pg) el)"

definition null_property :: "string \<Rightarrow> error" where
  "null_property k = TypeError (''Cannot read properties of null (reading '' @ k @ '')'')"

record click_options =
  rightClick :: bool

text \<open>
  \<^verbatim>\<open>clickElement\<close>, with the two events of \<^verbatim>\<open>humanMouseMove\<close> in their place. The
  options are read only after the click has been dispatched.
\<close>

definition clickElement ::
  "engine \<Rightarrow> page \<Rightarrow> target option \<Rightarrow> click_options param \<Rightarrow> page \<times> (error + descriptor)" where
  "clickElement B pg tg options =
     (case resolveTarget B (document pg) tg of
        Inl err \<Rightarrow> (pg, Inl err)
      | Inr el \<Rightarrow>
          let pg1 = emit [ScrolledIntoView el ''smooth'',
                          Dispatched el ''mousemove'', Dispatched el ''mouseenter'',
                          Dispatched el ''mousedown'', Dispatched el ''mouseup'',
                          Dispatched el ''click''] pg
          in (case options of
                Null \<Rightarrow> (pg1, Inl (null_property ''rightClick''))
              | Omitted \<Rightarrow> (pg1, Inr (describe pg1 el))
              | Given opts \<Rightarrow>
                  let pg2 = (if rightClick opts then emit [Dispatched el ''contextmenu''] pg1 else pg1)
                  in (pg2, Inr (describe pg2 el))))"

text \<open>\<^verbatim>\<open>el.textContent = s\<close>: the children are replaced by one text node, or by none.\<close>

fun set_textContent :: "string \<Rightarrow> element \<Rightarrow> element" where
  "set_textContent s (Element e cs) = Element e (if s = [] then [] else [TextNode s])"

text \<open>
  One round of the loop of \<^verbatim>\<open>typeInElement\<close>. \<^verbatim>\<open>el.value += char\<close> converts the value held
  to a string and appends.
\<close>

definition type_char :: "path \<Rightarrow> char \<Rightarrow> page \<Rightarrow> page" where
  "type_char el c pg =
     (let pg1 = emit [Dispatched el ''keydown'', Dispatched el ''keypress''] pg;
          e = edata_of (element_at (document pg1) el);
          pg2 =
            (if tagName e = ''INPUT'' \<or> tagName e = ''TEXTAREA'' then
               pg1\<lparr>document :=
                     update_at el (\<lambda>x. x\<lparr>el_value := JStr (String_js (el_value x) @ [c])\<rparr>)
                       (document pg1)\<rparr>
             else if isContentEditable e then
               (if rangeCount pg1 > 0 then emit [InsertedAtCaret [c]] pg1
                else pg1\<lparr>document :=
                           modify el (\<lambda>x. set_textContent (textContent x @ [c]) x) (document pg1)\<rparr>)
             else pg1)
      in emit [Dispatched el ''keyup'', Dispatched el ''input''] pg2)"

record type_options =
  clearFirst :: bool
  humanDelay :: bool

definition typeInElement ::
  "engine \<Rightarrow> page \<Rightarrow> target option \<Rightarrow> jsval \<Rightarrow> type_options param \<Rightarrow> page \<times> (error + descriptor)" where
  "typeInElement B pg tg text options =
     (case resolveTarget B (document pg) tg of
        Inl err \<Rightarrow> (pg, Inl err)
      | Inr el \<Rightarrow>
          let pg1 = emit [ScrolledIntoView el ''smooth'', Focused el] pg
          in (case options of
                Null \<Rightarrow> (pg1, Inl (null_property ''clearFirst''))
              | _ \<Rightarrow>
                  let clear = (case options of Given opts \<Rightarrow> clearFirst opts | _ \<Rightarrow> False);
                      pg2 =
                        (if clear then
                           emit [Dispatched el ''input'']
                             (pg1\<lparr>document :=
                                    update_at el (\<lambda>x. x\<lparr>el_value := JStr []\<rparr>) (document pg1)\<rparr>)
                         else pg1)
                  in (case text of
                        JStr chars \<Rightarrow>
                          let pg3 = fold (type_char el) chars pg2;
                              pg4 = emit [Dispatched el ''change''] pg3
                          in (pg4, Inr (describe pg4 el))
                      | _ \<Rightarrow> (pg2, Inl (TypeError ''text is not iterable'')))))"

record scroll_options =
  so_x :: "rat option"
  so_y :: "rat option"
  so_behavior :: "string option"
  so_selector :: jsval

definition scrollPage ::
  "engine \<Rightarrow> page \<Rightarrow> scroll_options param \<Rightarrow> page \<times> (error + rat \<times> rat)" where
  "scrollPage B pg options =
     (case options of
        Null \<Rightarrow> (pg, Inl (TypeError ''Cannot destructure null''))
      | _ \<Rightarrow>
          let opts = (case options of
                        Given v \<Rightarrow> v
                      | _ \<Rightarrow> \<lparr>so_x = None, so_y = None, so_behavior = None, so_selector = JUndefined\<rparr>);
              x = (case so_x opts of None \<Rightarrow> 0 | Some v \<Rightarrow> v);
              y = (case so_y opts of None \<Rightarrow> 0 | Some v \<Rightarrow> v);
              behavior = (case so_behavior opts of None \<Rightarrow> ''smooth'' | Some v \<Rightarrow> v)
          in if truthy_js (so_selector opts) then
               (case querySelector B (document pg) (String_js (so_selector opts)) of
                  Inl err \<Rightarrow> (pg, Inl err)
                | Inr None \<Rightarrow> (pg, Inr (scrollX pg, scrollY pg))
                | Inr (Some el) \<Rightarrow>
                    (emit [ScrolledIntoView el behavior] pg, Inr (scrollX pg, scrollY pg)))
             else (emit [ScrolledBy x y behavior] pg, Inr (scrollX pg, scrollY pg)))"

section \<open>Form automation\<close>

record field =
  f_target :: "target option"
  f_value :: jsval
  f_type :: jsval

record fill_result =
  fr_target :: "target option"
  fr_ok :: bool
  fr_error :: "string option"

text \<open>\<^verbatim>\<open>o.value === value || o.text === value\<close>\<close>

definition option_matches :: "jsval \<Rightarrow> option_data \<Rightarrow> bool" where
  "option_matches v opt = (JStr (opt_value opt) = v \<or> JStr (opt_text opt) = v)"

text \<open>
  \<^verbatim>\<open>option.selected = true\<close> on the option at index \<open>i\<close>: in a select that is not multiple
  the other options lose their selection.
\<close>

definition select_option :: "bool \<Rightarrow> nat \<Rightarrow> option_data list \<Rightarrow> option_data list" where
  "select_option multi i opts =
     map (\<lambda>(j, opt). if j = i then opt\<lparr>opt_selected := True\<rparr>
                      else if multi then opt else opt\<lparr>opt_selected := False\<rparr>)
         (enumerate 0 opts)"

text \<open>The body of the \<^verbatim>\<open>try\<close> block for one field.\<close>

definition fill_field :: "engine \<Rightarrow> page \<Rightarrow> field \<Rightarrow> page \<times> (error + unit)" where
  "fill_field B pg f =
     (case resolveTarget B (document pg) (f_target f) of
        Inl err \<Rightarrow> (pg, Inl err)
      | Inr el \<Rightarrow>
          let e = edata_of (element_at (document pg) el)
          in if f_type f = JStr ''select'' then
               (let pg1 = emit [Focused el] pg
                in case el_options e of
                     None \<Rightarrow> (pg1, Inl (TypeError ''undefined is not iterable''))
                   | Some opts \<Rightarrow>
                       (case find (\<lambda>i. option_matches (f_value f) (opts ! i)) [0..<length opts] of
                          None \<Rightarrow> (pg1, Inr ())
                        | Some i \<Rightarrow>
                            (emit [Dispatched el ''change'']
                               (pg1\<lparr>document :=
                                      update_at el
                                        (\<lambda>x. x\<lparr>el_options := Some (select_option (el_multiple x) i opts)\<rparr>)
                                        (document pg1)\<rparr>),
                             Inr ())))
             else if el_type e = JStr ''checkbox'' \<or> el_type e = JStr ''radio'' then
               (let shouldCheck = (f_value f = JBool True \<or> f_value f = JStr ''true''
                                   \<or> f_value f = JStr ''1'')
                in if el_checked e \<noteq> JBool shouldCheck then
                     (case clickElement B pg (f_target f) Omitted of
                        (pg1, Inl err) \<Rightarrow> (pg1, Inl err)
                      | (pg1, Inr r) \<Rightarrow> (pg1, Inr ()))
                   else (pg, Inr ()))
             else
               (case typeInElement B pg (f_target f) (JStr (String_js (f_value f)))
                       (Given \<lparr>clearFirst = True, humanDelay = True\<rparr>) of
                  (pg1, Inl err) \<Rightarrow> (pg1, Inl err)
                | (pg1, Inr r) \<Rightarrow> (pg1, Inr ())))"

text \<open>
  The loop over the fields, with its \<^verbatim>\<open>try\<close>/\<^verbatim>\<open>catch\<close>: the fields are objects, so
  taking one apart never throws.
\<close>

fun fillForm :: "engine \<Rightarrow> page \<Rightarrow> field list \<Rightarrow> page \<times> fill_result list" where
  "fillForm B pg [] = (pg, [])"
| "fillForm B pg (f # fs) =
     (let (pg1, r) = fill_field B pg f;
          entry = (case r of
                     Inr u \<Rightarrow> \<lparr>fr_target = f_target f, fr_ok = True, fr_error = None\<rparr>
                   | Inl err \<Rightarrow> \<lparr>fr_target = f_target f, fr_ok = False, fr_error = Some (message err)\<rparr>);
          (pg2, results) = fillForm B pg1 fs
      in (pg2, entry # results))"


section \<open>Snapshots\<close>

text \<open>\<^verbatim>\<open>xs.slice(0, n)\<close>: a negative \<open>n\<close> counts from the end.\<close>

definition slice_to :: "int \<Rightarrow> 'a list \<Rightarrow> 'a list" where
  "slice_to n xs = (if n < 0 then take (length xs - nat (- n)) xs else take (nat n) xs)"

record snapshot_options =
  maxElements :: "int option"
  includeHidden :: "bool option"

record snapshot =
  s_url :: string
  s_title :: string
  s_elementCount :: nat
  s_captured :: nat
  s_elements :: "descriptor list"

definition getDomSnapshot :: "page \<Rightarrow> snapshot_options param \<Rightarrow> error + snapshot" where
  "getDomSnapshot pg options =
     (case options of
        Null \<Rightarrow> Inl (TypeError ''Cannot destructure null'')
      | _ \<Rightarrow>
          let opts = (case options of Given v \<Rightarrow> v | _ \<Rightarrow> \<lparr>maxElements = None, includeHidden = None\<rparr>);
              maxEl = (case maxElements opts of None \<Rightarrow> 500 | Some n \<Rightarrow> n);
              hidden = (case includeHidden opts of None \<Rightarrow> False | Some b \<Rightarrow> b);
              elements = elems (document pg);
              relevant = map (describe pg)
                           (slice_to maxEl (filter (\<lambda>el. hidden \<or> holds (document pg) isVisible el) elements))
          in Inr \<lparr> s_url = location_href pg, s_title = document_title pg,
                   s_elementCount = length elements, s_captured = length relevant,
                   s_elements = relevant \<rparr>)"

section \<open>Waiting for a selector\<close>

text \<open>
  The promise of \<^verbatim>\<open>waitForSelector\<close> and what it has set up, between the events that
  reach it: a notification of the mutation observer (with the document as it is then), and
  the timer. Only the first call of \<^verbatim>\<open>resolve\<close> settles a promise; the calls are counted.
  The order of the events is all that is kept of time.
\<close>

datatype wait_event = Mutated element | TimerFired

record waiting =
  w_document :: element
  observing :: bool
  timer_pending :: bool
  settled :: "bool option"
  resolve_calls :: nat

definition resolve :: "bool \<Rightarrow> waiting \<Rightarrow> waiting" where
  "resolve v w =
     w\<lparr>settled := (case settled w of None \<Rightarrow> Some v | Some r \<Rightarrow> Some r),
       resolve_calls := Suc (resolve_calls w)\<rparr>"

text \<open>The executor of the promise: an invalid selector makes it throw, which rejects.\<close>

definition wait_start :: "engine \<Rightarrow> element \<Rightarrow> jsval \<Rightarrow> error + waiting" where
  "wait_start B d selector =
     (let w0 = \<lparr>w_document = d, observing = False, timer_pending = False, settled = None,
                resolve_calls = 0\<rparr>
      in case querySelector B d (String_js selector) of
           Inl err \<Rightarrow> Inl err
         | Inr (Some el) \<Rightarrow> Inr (resolve True w0)
         | Inr None \<Rightarrow> Inr (w0\<lparr>observing := True, timer_pending := True\<rparr>))"

text \<open>
  The callback of the observer runs only while the observer is connected; the callback
  of the timer runs once.
\<close>

definition wait_step :: "engine \<Rightarrow> jsval \<Rightarrow> wait_event \<Rightarrow> waiting \<Rightarrow> waiting" where
  "wait_step B selector ev w =
     (case ev of
        Mutated d \<Rightarrow>
          let w1 = w\<lparr>w_document := d\<rparr>
          in if observing w1 then
               (case querySelector B d (String_js selector) of
                  Inr (Some el) \<Rightarrow> resolve True (w1\<lparr>observing := False\<rparr>)
                | _ \<Rightarrow> w1)
             else w1
      | TimerFired \<Rightarrow>
          if timer_pending w then resolve False (w\<lparr>observing := False, timer_pending := False\<rparr>)
          else w)"

text \<open>The time-out in milliseconds only decides when the timer fires.\<close>

definition waitForSelector ::
  "engine \<Rightarrow> element \<Rightarrow> jsval \<Rightarrow> rat option \<Rightarrow> wait_event list \<Rightarrow> error + waiting" where
  "waitForSelector B d selector timeout events =
     (case wait_start B d selector of
        Inl err \<Rightarrow> Inl err
      | Inr w \<Rightarrow> Inr (fold (wait_step B selector) events w))"

section \<open>The message handler\<close>

datatype request =
    PING
  | GET_DOM_SNAPSHOT "snapshot_options param"
  | GET_ACCESSIBILITY_TREE "int option"
  | APPLY_SET_OF_MARKS
  | CLEAR_SET_OF_MARKS
  | CLICK_ELEMENT "target option" "click_options param"
  | TYPE_IN_ELEMENT "target option" jsval "type_options param"
  | SCROLL "scroll_options param"
  | FILL_FORM "field list option"
  | GET_PAGE_INFO
  | FIND_ELEMENTS jsval "int option"
  | WAIT_FOR_SELECTOR jsval "rat option"
  | Other jsval

datatype payload =
    Pong string string
  | SnapshotOf snapshot
  | TreeOf a11y_result
  | MarksOf nat "(string \<times> descriptor) list"
  | Nothing
  | ElementOf descriptor
  | PositionOf rat rat
  | ResultsOf "fill_result list"
  | PageInfo string string string "rat \<times> rat" "rat \<times> rat"
  | ElementsOf "descriptor list"
  | TimedOut bool

text \<open>A response: the \<^verbatim>\<open>ok\<close> flag, the \<^verbatim>\<open>error\<close> field when there is one, the other fields.\<close>

record response =
  resp_ok :: bool
  resp_error :: "string option"
  resp_fields :: "payload option"

definition success :: "payload \<Rightarrow> response" where
  "success b = \<lparr>resp_ok = True, resp_error = None, resp_fields = Some b\<rparr>"

definition failure :: "string \<Rightarrow> response" where
  "failure m = \<lparr>resp_ok = False, resp_error = Some m, resp_fields = None\<rparr>"

text \<open>
  The function \<^verbatim>\<open>handle\<close> of the listener. A wait needs the future of the page: the
  documents at the notifications that come before the timer fires. The timer always
  fires, so the list of events ends with it.
\<close>

definition handle ::
  "engine \<Rightarrow> element list \<Rightarrow> page \<Rightarrow> request \<Rightarrow> page \<times> (error + response)" where
  "handle B future pg msg =
     (case msg of
        PING \<Rightarrow> (pg, Inr (success (Pong (location_href pg) (document_title pg))))
      | GET_DOM_SNAPSHOT options \<Rightarrow>
          (pg, map_sum id (\<lambda>s. success (SnapshotOf s)) (getDomSnapshot pg options))
      | GET_ACCESSIBILITY_TREE maxDepth \<Rightarrow>
          (pg, Inr (success (TreeOf (getAccessibilityTree pg maxDepth))))
      | APPLY_SET_OF_MARKS \<Rightarrow>
          (let (d, markMap) = applySetOfMarks DocumentRoot (document pg);
               pg1 = pg\<lparr>document := d\<rparr>
           in (pg1, Inr (success (MarksOf (length markMap)
                                   (map (\<lambda>(k, el). (k, describe pg1 el)) markMap)))))
      | CLEAR_SET_OF_MARKS \<Rightarrow>
          (pg\<lparr>document := clearSetOfMarks DocumentRoot (document pg)\<rparr>, Inr (success Nothing))
      | CLICK_ELEMENT tg options \<Rightarrow>
          (case clickElement B pg tg options of
             (pg1, r) \<Rightarrow> (pg1, map_sum id (\<lambda>x. success (ElementOf x)) r))
      | TYPE_IN_ELEMENT tg text options \<Rightarrow>
          (case typeInElement B pg tg text options of
             (pg1, r) \<Rightarrow> (pg1, map_sum id (\<lambda>x. success (ElementOf x)) r))
      | SCROLL options \<Rightarrow>
          (case scrollPage B pg options of
             (pg1, r) \<Rightarrow> (pg1, map_sum id (\<lambda>(x, y). success (PositionOf x y)) r))
      | FILL_FORM field_list \<Rightarrow>
          (case field_list of
             None \<Rightarrow> (pg, Inl (TypeError ''fields is not iterable''))
           | Some fs \<Rightarrow>
               (case fillForm B pg fs of (pg1, results) \<Rightarrow> (pg1, Inr (success (ResultsOf results)))))
      | GET_PAGE_INFO \<Rightarrow>
          (pg, Inr (success (PageInfo (location_href pg) (document_title pg) (readyState pg)
                               (innerWidth pg, innerHeight pg) (scrollX pg, scrollY pg))))
      | FIND_ELEMENTS selector limit \<Rightarrow>
          (let found = (if truthy_js selector
                        then querySelectorAll B (document pg) DocumentRoot (String_js selector)
                        else Inr (getInteractiveElements (document pg) DocumentRoot))
           in (pg, map_sum id
                     (\<lambda>els. success (ElementsOf
                        (map (describe pg)
                           (slice_to (case limit of None \<Rightarrow> 100 | Some n \<Rightarrow> n) els))))
                     found))
      | WAIT_FOR_SELECTOR selector timeout \<Rightarrow>
          (case waitForSelector B (document pg) selector timeout (map Mutated future @ [TimerFired]) of
             Inl err \<Rightarrow> (pg, Inl err)
           | Inr w \<Rightarrow>
               (let found = (settled w = Some True)
                in (pg\<lparr>document := w_document w\<rparr>,
                    Inr \<lparr>resp_ok = found, resp_error = None, resp_fields = Some (TimedOut (\<not> found))\<rparr>)))
      | Other t \<Rightarrow> (pg, Inr (failure (''Unknown message type: '' @ String_js t))))"

text \<open>
  The listener: whatever \<^verbatim>\<open>handle\<close> throws is caught and turned into a failure with the
  message of the error.
\<close>

definition onMessage :: "engine \<Rightarrow> element list \<Rightarrow> page \<Rightarrow> request \<Rightarrow> page \<times> response" where
  "onMessage B future pg msg =
     (case handle B future pg msg of
        (pg1, Inr resp) \<Rightarrow> (pg1, resp)
      | (pg1, Inl err) \<Rightarrow> (pg1, failure (message err)))"


section \<open>Vocabulary of the properties\<close>

text \<open>
  The three lookups of a target. A key counts as set when it holds a value that the
  resolver takes up: a string or a number for the mark, a truthy value for the selector
  and for the path expression.
\<close>

datatype lookup = ByMark | BySelector | ByXPath

fun key_set :: "target \<Rightarrow> lookup \<Rightarrow> bool" where
  "key_set t ByMark = is_string_or_number (t_mark t)"
| "key_set t BySelector = truthy_js (t_selector t)"
| "key_set t ByXPath = truthy_js (t_xpath t)"

text \<open>The first key that is set, in the order mark, selector, path expression.\<close>

definition preferred :: "target \<Rightarrow> lookup option" where
  "preferred t = find (key_set t) [ByMark, BySelector, ByXPath]"

text \<open>All matches of a lookup in the document, in document order.\<close>

fun lookup_all :: "engine \<Rightarrow> element \<Rightarrow> target \<Rightarrow> lookup \<Rightarrow> error + path list" where
  "lookup_all B d t ByMark =
     (let m = String_js (t_mark t)
      in if plain_css_string m
         then Inr (filter (holds d (\<lambda>e. getAttribute e MARK_ATTR = Some m)) (elems d))
         else querySelectorAll B d DocumentRoot (mark_selector m))"
| "lookup_all B d t BySelector = querySelectorAll B d DocumentRoot (String_js (t_selector t))"
| "lookup_all B d t ByXPath =
     (case xpath B (String_js (t_xpath t)) of
        None \<Rightarrow> Inl (invalid_xpath (String_js (t_xpath t)))
      | Some matches \<Rightarrow> Inr (filter (matches d) (elems d)))"

text \<open>The errors that say no element was found, and those that say the target is malformed.\<close>

fun not_found :: "error \<Rightarrow> bool" where
  "not_found (NoElementWithMark m) = True"
| "not_found (NoElementMatching s) = True"
| "not_found (NoElementAtXPath x) = True"
| "not_found err = False"

fun invalid_target :: "error \<Rightarrow> bool" where
  "invalid_target TargetRequired = True"
| "invalid_target TargetWithoutKey = True"
| "invalid_target err = False"

text \<open>
  A small engine for the examples: \<^verbatim>\<open>#id\<close> and tag names as selectors, the empty text
  invalid; \<^verbatim>\<open>/*\<close> as the one path expression, selecting the document element.
\<close>

definition example_engine :: engine where
  "example_engine =
     \<lparr> css = (\<lambda>s. case s of
                 [] \<Rightarrow> None
               | c # r \<Rightarrow>
                   if c = CHR ''#'' then Some (\<lambda>d. holds d (\<lambda>e. getAttribute e ''id'' = Some r))
                   else Some (\<lambda>d. holds d (\<lambda>e. toLowerCase (tagName e) = toLowerCase s))),
       xpath = (\<lambda>s. if s = ''/*'' then Some (\<lambda>d p. p = []) else None) \<rparr>"

definition text_input :: "string \<Rightarrow> string \<Rightarrow> element" where
  "text_input i v =
     Element ((html_element ''INPUT'' [(''id'', i)])\<lparr>el_value := JStr v, el_type := JStr ''text''\<rparr>) []"

definition select_box :: "string \<Rightarrow> option_data list \<Rightarrow> element" where
  "select_box i opts =
     Element ((html_element ''SELECT'' [(''id'', i)])
                \<lparr>el_value := JStr [], el_type := JStr ''select-one'', el_options := Some opts\<rparr>) []"

text \<open>A form page: a text field holding \<^verbatim>\<open>old\<close>, a select box and a link that carries a stale mark.\<close>

definition form_page :: page where
  "form_page =
     page_of (Element (html_element ''HTML'' [])
       [ElementNode (Element (html_element ''HEAD'' []) []),
        ElementNode (Element (html_element ''BODY'' [])
          [ElementNode (text_input ''name'' ''old''),
           TextNode '' and '',
           ElementNode (select_box ''colour''
              [\<lparr>opt_value = ''r'', opt_text = ''Red'', opt_selected = True\<rparr>,
               \<lparr>opt_value = ''g'', opt_text = ''Green'', opt_selected = False\<rparr>]),
           ElementNode (Element (html_element ''DIV'' [(''data-openclaw-mark'', ''7'')])
              [ElementNode (Element (html_element ''A'' [(''data-openclaw-mark'', ''2'')])
                 [TextNode ''more''])])])])"

definition by_selector :: "string \<Rightarrow> target option" where
  "by_selector s = Some \<lparr>t_mark = JUndefined, t_selector = JStr s, t_xpath = JUndefined\<rparr>"

definition by_mark :: "jsval \<Rightarrow> target option" where
  "by_mark m = Some \<lparr>t_mark = m, t_selector = JUndefined, t_xpath = JUndefined\<rparr>"

text \<open>A section that is not displayed, with a paragraph inside.\<close>

definition unseen_section :: element where
  "unseen_section =
     Element ((html_element ''SECTION'' [])\<lparr>style_display := ''none''\<rparr>)
       [ElementNode (Element (html_element ''P'' []) [TextNode ''Hello''])]"

text \<open>
  What holds of a wait at every moment: the observer is connected exactly while the
  promise is unsettled, a connected observer has its timer still ahead, and \<^verbatim>\<open>resolve\<close>
  has been called at most twice.
\<close>

definition wait_inv :: "waiting \<Rightarrow> bool" where
  "wait_inv w =
     ((observing w \<longleftrightarrow> settled w = None) \<and> (observing w \<longrightarrow> timer_pending w)
      \<and> (settled w = None \<longleftrightarrow> resolve_calls w = 0) \<and> resolve_calls w \<le> 2
      \<and> (resolve_calls w = 2 \<longrightarrow> \<not> timer_pending w))"

text \<open>A document in which the element \<^verbatim>\<open>#late\<close> has appeared.\<close>

definition late_page :: element where
  "late_page =
     Element (html_element ''HTML'' [])
       [ElementNode (Element (html_element ''HEAD'' []) []),
        ElementNode (Element (html_element ''BODY'' [])
          [ElementNode (Element (html_element ''DIV'' [(''id'', ''late'')]) [])])]"

section \<open>Properties\<close>

subsection \<open>The accessibility tree\<close>

lemma buildA11yNode_beyond: "maxDepth < depth \<Longrightarrow> buildA11yNode el depth maxDepth = None"
  by (cases el) simp

lemma buildA11yChildren_beyond: "maxDepth < depth \<Longrightarrow> buildA11yChildren cs depth maxDepth = []"
proof (induction cs)
  case Nil
  show ?case by simp
next
  case (Cons c cs)
  then show ?case by (cases c) (simp_all add: buildA11yNode_beyond)
qed

text \<open>
  C1, as stated: the root is never pruned, so that with \<open>maxDepth = 0\<close> every body gives a
  root node with no children. It is pruned like any other node: a body without text,
  without a naming attribute and without children gives no tree at all.
\<close>

theorem root_pruned_counterexample:
  "r_tree (getAccessibilityTree empty_body_page (Some 0)) = None"
  by code_simp

text \<open>
  C1, amended. The root is exempt from the visibility test and from nothing else: at depth
  0, for a bound that is not negative, \<^verbatim>\<open>buildA11yNode\<close> returns a node exactly when the
  root is not \<^verbatim>\<open>aria-hidden="true"\<close> and has a name, a retained child or an interactive
  tag; its visibility plays no part. With \<open>maxDepth = 0\<close>, \<^verbatim>\<open>getAccessibilityTree\<close>
  returns the root node with an empty child list when the body is not hidden in that
  sense and has a name or an interactive tag, and no node otherwise.
\<close>

theorem root_retained_iff:
  "(0 \<le> maxDepth \<longrightarrow>
      (buildA11yNode el 0 maxDepth \<noteq> None) =
        (getAttribute (edata_of el) ''aria-hidden'' \<noteq> Some ''true'' \<and>
         (truthy (a11y_name el)
          \<or> buildA11yChildren (childNodes el) 1 maxDepth \<noteq> []
          \<or> tagName (edata_of el) \<in> set INTERACTIVE_TAGS)))
   \<and> r_tree (getAccessibilityTree pg (Some 0)) =
       (let body = (case document_body (document pg) of Some b \<Rightarrow> b | None \<Rightarrow> document pg);
            e = edata_of body
        in if getAttribute e ''aria-hidden'' \<noteq> Some ''true''
              \<and> (truthy (a11y_name body) \<or> tagName e \<in> set INTERACTIVE_TAGS)
           then Some (A11yNode (a11y_role e) (a11y_name body) (tagName e)
                        (or_else (getAttribute e MARK_ATTR) None) [])
           else None)"
proof (intro conjI impI)
  assume "0 \<le> maxDepth"
  then show "(buildA11yNode el 0 maxDepth \<noteq> None) =
        (getAttribute (edata_of el) ''aria-hidden'' \<noteq> Some ''true'' \<and>
         (truthy (a11y_name el)
          \<or> buildA11yChildren (childNodes el) 1 maxDepth \<noteq> []
          \<or> tagName (edata_of el) \<in> set INTERACTIVE_TAGS))"
    by (cases el) (auto simp: Let_def)
next
  have zero: "buildA11yNode b 0 0 =
      (if getAttribute (edata_of b) ''aria-hidden'' \<noteq> Some ''true''
              \<and> (truthy (a11y_name b) \<or> tagName (edata_of b) \<in> set INTERACTIVE_TAGS)
       then Some (A11yNode (a11y_role (edata_of b)) (a11y_name b) (tagName (edata_of b))
                        (or_else (getAttribute (edata_of b) MARK_ATTR) None) [])
       else None)" for b
    by (cases b) (simp add: Let_def buildA11yChildren_beyond)
  show "r_tree (getAccessibilityTree pg (Some 0)) =
       (let body = (case document_body (document pg) of Some b \<Rightarrow> b | None \<Rightarrow> document pg);
            e = edata_of body
        in if getAttribute e ''aria-hidden'' \<noteq> Some ''true''
              \<and> (truthy (a11y_name body) \<or> tagName e \<in> set INTERACTIVE_TAGS)
           then Some (A11yNode (a11y_role e) (a11y_name body) (tagName e)
                        (or_else (getAttribute e MARK_ATTR) None) [])
           else None)"
    by (simp add: getAccessibilityTree_def Let_def zero)
qed

theorem root_retained_iff_witness:
  "(0::int) \<le> 3 \<and> \<not> isVisible (edata_of unseen_section)
   \<and> buildA11yNode unseen_section 0 3 \<noteq> None
   \<and> r_tree (getAccessibilityTree text_body_page (Some 0))
       = Some (A11yNode ''body'' (Some ''Hello'') ''BODY'' None [])"
proof -
  have a: "getAttribute (edata_of unseen_section) ''aria-hidden'' \<noteq> Some ''true''"
    by code_simp
  have b: "truthy (a11y_name unseen_section)"
    by code_simp
  have c: "\<not> isVisible (edata_of unseen_section)"
    by code_simp
  have d: "(let body = (case document_body (document text_body_page) of Some b \<Rightarrow> b | None \<Rightarrow> document text_body_page);
            e = edata_of body
        in if getAttribute e ''aria-hidden'' \<noteq> Some ''true''
              \<and> (truthy (a11y_name body) \<or> tagName e \<in> set INTERACTIVE_TAGS)
           then Some (A11yNode (a11y_role e) (a11y_name body) (tagName e)
                        (or_else (getAttribute e MARK_ATTR) None) [])
           else None) = Some (A11yNode ''body'' (Some ''Hello'') ''BODY'' None [])"
    by code_simp
  show ?thesis
    using root_retained_iff [of 3 unseen_section text_body_page] a b c d by simp
qed

text \<open>
  C5, as stated: the name of a node is the label of the descriptor. A button with the
  attribute \<^verbatim>\<open>aria-labelledby\<close> and a text of its own has the text as its name and the
  attribute as its label.
\<close>

theorem name_differs_from_label_counterexample:
  "buildA11yNode labelled_button 0 8 = Some (A11yNode ''button'' (Some ''Send'') ''BUTTON'' None [])
   \<and> d_label (describeElement labelled_button labelled_button) = Some ''caption''"
  by code_simp

lemma buildA11yNode_name: "buildA11yNode el depth maxDepth = Some n \<Longrightarrow> a_name n = a11y_name el"
  by (cases el) (auto simp: Let_def split: if_splits)

lemma or_else_truthy: "truthy a \<Longrightarrow> or_else a b = a"
  by (simp add: or_else_def)

lemma or_else_falsy: "\<not> truthy a \<Longrightarrow> or_else a b = b"
  by (simp add: or_else_def)

text \<open>
  C5, amended. The tree builder names a node by the chain \<^verbatim>\<open>aria-label\<close>, \<^verbatim>\<open>title\<close>,
  \<^verbatim>\<open>placeholder\<close>, own trimmed text cut to 80 units, else nothing; it has neither the
  label reference nor the associated label element of the descriptor builder. The name
  equals the label of the descriptor whenever those two steps decide nothing: the element
  has a non-empty \<^verbatim>\<open>aria-label\<close>, or it has no non-empty \<^verbatim>\<open>aria-labelledby\<close> and either a
  non-empty \<^verbatim>\<open>title\<close> or \<^verbatim>\<open>placeholder\<close>, or no first label element with a text.
\<close>

theorem name_is_label_without_references:
  assumes "buildA11yNode el depth maxDepth = Some n"
    and "truthy (getAttribute (edata_of el) ''aria-label'')
         \<or> (\<not> truthy (getAttribute (edata_of el) ''aria-labelledby'')
            \<and> (truthy (getAttribute (edata_of el) ''title'')
               \<or> truthy (getAttribute (edata_of el) ''placeholder'')
               \<or> \<not> truthy (first_label_text d (edata_of el))))"
  shows "a_name n = d_label (describeElement d el)
         \<and> a_name n =
             or_else (getAttribute (edata_of el) ''aria-label'')
            (or_else (getAttribute (edata_of el) ''title'')
            (or_else (getAttribute (edata_of el) ''placeholder'')
            (or_else (Some (take 80 (trim (textContent el)))) None)))"
proof -
  have n: "a_name n = a11y_name el"
    using assms(1) by (rule buildA11yNode_name)
  have "a11y_name el = d_label (describeElement d el)"
    using assms(2)
    by (auto simp: a11y_name_def describeElement_def Let_def or_else_truthy or_else_falsy)
  with n show ?thesis
    by (simp add: a11y_name_def Let_def)
qed

theorem name_is_label_without_references_witness:
  "buildA11yNode titled_button 0 8 = Some (A11yNode ''button'' (Some ''Send the form'') ''BUTTON'' None [])
   \<and> d_label (describeElement titled_button titled_button) = Some ''Send the form''"
proof -
  have a: "buildA11yNode titled_button 0 8 = Some (A11yNode ''button'' (Some ''Send the form'') ''BUTTON'' None [])"
    by code_simp
  have b: "truthy (getAttribute (edata_of titled_button) ''aria-label'')
         \<or> (\<not> truthy (getAttribute (edata_of titled_button) ''aria-labelledby'')
            \<and> (truthy (getAttribute (edata_of titled_button) ''title'')
               \<or> truthy (getAttribute (edata_of titled_button) ''placeholder'')
               \<or> \<not> truthy (first_label_text titled_button (edata_of titled_button))))"
    by code_simp
  show ?thesis
    using name_is_label_without_references [OF a b] a by simp
qed

subsection \<open>Resolving a target\<close>

lemma first_of_Nil_iff: "first_of xs = None \<longleftrightarrow> xs = []"
  by (cases xs) (simp_all add: first_of_def)

lemma first_of_Cons: "first_of (x # xs) = Some x"
  by (simp add: first_of_def)

lemma resolveTarget_by_mark:
  assumes "is_string_or_number (t_mark t)"
  shows "resolveTarget B d (Some t) =
           (case lookup_all B d t ByMark of
              Inl err \<Rightarrow> Inl err
            | Inr [] \<Rightarrow> Inl (NoElementWithMark (t_mark t))
            | Inr (p # ps) \<Rightarrow> Inr p)"
  using assms
  by (auto simp: resolveTarget_def query_mark_def querySelector_def querySelectorAll_def
        first_of_def Let_def split: option.splits list.splits sum.splits)

lemma resolveTarget_by_selector:
  assumes "\<not> is_string_or_number (t_mark t)" and "truthy_js (t_selector t)"
  shows "resolveTarget B d (Some t) =
           (case lookup_all B d t BySelector of
              Inl err \<Rightarrow> Inl err
            | Inr [] \<Rightarrow> Inl (NoElementMatching (t_selector t))
            | Inr (p # ps) \<Rightarrow> Inr p)"
  using assms
  by (auto simp: resolveTarget_def querySelector_def querySelectorAll_def
        first_of_def split: option.splits list.splits sum.splits)

lemma resolveTarget_by_xpath:
  assumes "\<not> is_string_or_number (t_mark t)" and "\<not> truthy_js (t_selector t)"
    and "truthy_js (t_xpath t)"
  shows "resolveTarget B d (Some t) =
           (case lookup_all B d t ByXPath of
              Inl err \<Rightarrow> Inl err
            | Inr [] \<Rightarrow> Inl (NoElementAtXPath (t_xpath t))
            | Inr (p # ps) \<Rightarrow> Inr p)"
  using assms
  by (auto simp: resolveTarget_def evaluate_first_def
        first_of_def split: option.splits list.splits sum.splits)

lemma resolveTarget_preferred:
  assumes "preferred t = Some k"
  shows "\<exists>nf. not_found nf \<and> resolveTarget B d (Some t) =
           (case lookup_all B d t k of
              Inl err \<Rightarrow> Inl err
            | Inr [] \<Rightarrow> Inl nf
            | Inr (p # ps) \<Rightarrow> Inr p)"
proof (cases k)
  case ByMark
  with assms have "is_string_or_number (t_mark t)"
    by (simp add: preferred_def split: if_splits)
  from resolveTarget_by_mark [OF this] ByMark show ?thesis
    by (intro exI [of _ "NoElementWithMark (t_mark t)"]) simp
next
  case BySelector
  with assms have "\<not> is_string_or_number (t_mark t)" "truthy_js (t_selector t)"
    by (simp_all add: preferred_def split: if_splits)
  from resolveTarget_by_selector [OF this] BySelector show ?thesis
    by (intro exI [of _ "NoElementMatching (t_selector t)"]) simp
next
  case ByXPath
  with assms have "\<not> is_string_or_number (t_mark t)" "\<not> truthy_js (t_selector t)"
      "truthy_js (t_xpath t)"
    by (simp_all add: preferred_def split: if_splits)
  from resolveTarget_by_xpath [OF this] ByXPath show ?thesis
    by (intro exI [of _ "NoElementAtXPath (t_xpath t)"]) simp
qed

lemma lookup_errors_are_syntax: "lookup_all B d t k = Inl err \<Longrightarrow> \<not> not_found err"
  by (cases k)
     (auto simp: querySelectorAll_def invalid_selector_def invalid_xpath_def Let_def
           split: option.splits if_splits)

text \<open>
  C3. The resolver takes the first key that is set, in the order mark, selector, path
  expression, and ignores the later ones. For a target with such a key it fails with a
  not-found error exactly when the lookup of that key has no match in the document; when
  the lookup has matches it returns the first, and when the page rejects the selector
  or the expression that error is passed on. A target with no key set fails as malformed,
  and so does a missing target.
\<close>

theorem resolveTarget_preference_and_errors:
  "(preferred t = Some k \<longrightarrow>
      ((\<exists>err. resolveTarget B d (Some t) = Inl err \<and> not_found err) = (lookup_all B d t k = Inr []))
      \<and> (\<forall>p ps. lookup_all B d t k = Inr (p # ps) \<longrightarrow> resolveTarget B d (Some t) = Inr p)
      \<and> (\<forall>err. lookup_all B d t k = Inl err \<longrightarrow> resolveTarget B d (Some t) = Inl err))
   \<and> (preferred t = None \<longrightarrow>
        resolveTarget B d (Some t) = Inl TargetWithoutKey \<and> invalid_target TargetWithoutKey)
   \<and> resolveTarget B d None = Inl TargetRequired \<and> invalid_target TargetRequired"
proof (intro conjI impI)
  assume k: "preferred t = Some k"
  from resolveTarget_preferred [OF k, of B d] obtain nf where nf: "not_found nf"
    and r: "resolveTarget B d (Some t) =
           (case lookup_all B d t k of Inl err \<Rightarrow> Inl err | Inr [] \<Rightarrow> Inl nf | Inr (p # ps) \<Rightarrow> Inr p)"
    by blast
  show "(\<exists>err. resolveTarget B d (Some t) = Inl err \<and> not_found err) = (lookup_all B d t k = Inr [])"
    using nf r lookup_errors_are_syntax [of B d t k]
    by (auto split: sum.splits list.splits)
  show "\<forall>p ps. lookup_all B d t k = Inr (p # ps) \<longrightarrow> resolveTarget B d (Some t) = Inr p"
    using r by simp
  show "\<forall>err. lookup_all B d t k = Inl err \<longrightarrow> resolveTarget B d (Some t) = Inl err"
    using r by simp
next
  assume "preferred t = None"
  then show "resolveTarget B d (Some t) = Inl TargetWithoutKey"
    by (simp add: preferred_def resolveTarget_def split: if_splits)
next
  show "resolveTarget B d None = Inl TargetRequired"
    by (simp add: resolveTarget_def)
qed simp_all

theorem resolveTarget_preference_and_errors_witness:
  "preferred \<lparr>t_mark = JNum 3, t_selector = JStr ''#name'', t_xpath = JStr ''/*''\<rparr> = Some ByMark
   \<and> (\<exists>err. resolveTarget example_engine (document form_page)
               (Some \<lparr>t_mark = JNum 3, t_selector = JStr ''#name'', t_xpath = JStr ''/*''\<rparr>) = Inl err
             \<and> not_found err)
   \<and> preferred \<lparr>t_mark = JNull, t_selector = JStr ''#name'', t_xpath = JStr ''/*''\<rparr> = Some BySelector
   \<and> resolveTarget example_engine (document form_page)
        (Some \<lparr>t_mark = JNull, t_selector = JStr ''#name'', t_xpath = JStr ''/*''\<rparr>) = Inr [1, 0]
   \<and> preferred \<lparr>t_mark = JUndefined, t_selector = JStr [], t_xpath = JUndefined\<rparr> = None
   \<and> resolveTarget example_engine (document form_page)
        (Some \<lparr>t_mark = JUndefined, t_selector = JStr [], t_xpath = JUndefined\<rparr>) = Inl TargetWithoutKey"
proof -
  let ?t1 = "\<lparr>t_mark = JNum 3, t_selector = JStr ''#name'', t_xpath = JStr ''/*''\<rparr>"
  let ?t2 = "\<lparr>t_mark = JNull, t_selector = JStr ''#name'', t_xpath = JStr ''/*''\<rparr>"
  let ?t3 = "\<lparr>t_mark = JUndefined, t_selector = JStr [], t_xpath = JUndefined\<rparr>"
  have p1: "preferred ?t1 = Some ByMark" by code_simp
  have l1: "lookup_all example_engine (document form_page) ?t1 ByMark = Inr []" by code_simp
  have p2: "preferred ?t2 = Some BySelector" by code_simp
  have l2: "lookup_all example_engine (document form_page) ?t2 BySelector = Inr [[1, 0]]" by code_simp
  have p3: "preferred ?t3 = None" by code_simp
  show ?thesis
    using resolveTarget_preference_and_errors [of ?t1 ByMark example_engine "document form_page"]
      resolveTarget_preference_and_errors [of ?t2 BySelector example_engine "document form_page"]
      resolveTarget_preference_and_errors [of ?t3 ByMark example_engine "document form_page"]
      p1 l1 p2 l2 p3
    by simp
qed

subsection \<open>Paths\<close>

text \<open>Every path that the enumeration of the elements yields leads to an element.\<close>

lemma elems_from_shape:
  "p \<in> set (elems_from i cs) \<Longrightarrow>
     \<exists>j q c. p = (i + j) # q \<and> j < length cs \<and> cs ! j = ElementNode c \<and> q \<in> set (elems c)"
proof (induction cs arbitrary: i)
  case Nil
  then show ?case by simp
next
  case (Cons a cs)
  show ?case
  proof (cases a)
    case (TextNode s)
    with Cons.prems have "p \<in> set (elems_from (Suc i) cs)" by simp
    from Cons.IH [OF this] obtain j q c where
      "p = (Suc i + j) # q" "j < length cs" "cs ! j = ElementNode c" "q \<in> set (elems c)"
      by blast
    then show ?thesis
      by (intro exI [of _ "Suc j"] exI [of _ q] exI [of _ c]) simp
  next
    case (ElementNode el)
    with Cons.prems consider "p \<in> (#) i ` set (elems el)" | "p \<in> set (elems_from (Suc i) cs)"
      by auto
    then show ?thesis
    proof cases
      case 1
      then obtain q where "p = i # q" "q \<in> set (elems el)" by blast
      with ElementNode show ?thesis
        by (intro exI [of _ 0] exI [of _ q] exI [of _ el]) simp
    next
      case 2
      from Cons.IH [OF this] obtain j q c where
        "p = (Suc i + j) # q" "j < length cs" "cs ! j = ElementNode c" "q \<in> set (elems c)"
        by blast
      then show ?thesis
        by (intro exI [of _ "Suc j"] exI [of _ q] exI [of _ c]) simp
    qed
  qed
qed

lemma elems_in_document: "p \<in> set (elems el) \<Longrightarrow> get el p \<noteq> None"
proof (induction p arbitrary: el)
  case Nil
  show ?case by simp
next
  case (Cons i p)
  obtain e cs where el: "el = Element e cs" by (cases el)
  with Cons.prems have "i # p \<in> set (elems_from 0 cs)" by simp
  from elems_from_shape [OF this] obtain c where
    "i < length cs" "cs ! i = ElementNode c" "p \<in> set (elems c)"
    by auto
  with Cons.IH [of c] el show ?case by simp
qed




lemma get_modify_same: "get d p = Some x \<Longrightarrow> get (modify p f d) p = Some (f x)"
proof (induction p arbitrary: d)
  case Nil
  then show ?case by simp
next
  case (Cons i p)
  obtain e cs where d: "d = Element e cs" by (cases d)
  with Cons.prems obtain c where c: "i < length cs" "cs ! i = ElementNode c" "get c p = Some x"
    by (auto split: if_splits child.splits)
  with Cons.IH [OF c(3)] d show ?case by simp
qed

lemma get_update_at_same:
  "get d p = Some x \<Longrightarrow> get (update_at p g d) p = Some (map_edata g x)"
  by (simp add: update_at_def get_modify_same)


lemma edata_of_map_edata: "edata_of (map_edata g x) = g (edata_of x)"
  by (cases x) simp


subsection \<open>Typing\<close>





subsection \<open>Form automation\<close>

lemma fill_field_select_without_match:
  assumes "resolveTarget B (document pg) (f_target f) = Inr el"
    and "f_type f = JStr ''select''"
    and "el_options (edata_of (element_at (document pg) el)) = Some opts"
    and "\<forall>opt \<in> set opts. \<not> option_matches (f_value f) opt"
  shows "fill_field B pg f = (emit [Focused el] pg, Inr ())"
proof -
  have "find (\<lambda>i. option_matches (f_value f) (opts ! i)) [0..<length opts] = None"
    using assms(4) by (simp add: find_None_iff)
  with assms(1-3) show ?thesis
    by (simp add: fill_field_def Let_def)
qed

text \<open>
  C10. A field of kind \<^verbatim>\<open>select\<close> whose target resolves to an element with options, none of
  which has the given value as its value or its text: the entry reported is \<^verbatim>\<open>ok: true\<close>
  with no error, the document (and with it every selection) is unchanged, and the only
  effect is the call of \<^verbatim>\<open>focus\<close>; no change event is dispatched.
\<close>

theorem select_without_match_reports_ok:
  assumes "resolveTarget B (document pg) (f_target f) = Inr el"
    and "f_type f = JStr ''select''"
    and "el_options (edata_of (element_at (document pg) el)) = Some opts"
    and "\<forall>opt \<in> set opts. \<not> option_matches (f_value f) opt"
  shows "snd (fillForm B pg [f]) = [\<lparr>fr_target = f_target f, fr_ok = True, fr_error = None\<rparr>]
         \<and> document (fst (fillForm B pg [f])) = document pg
         \<and> effects (fst (fillForm B pg [f])) = effects pg @ [Focused el]"
  using fill_field_select_without_match [OF assms]
  by (simp add: emit_def)

theorem select_without_match_reports_ok_witness:
  "snd (fillForm example_engine form_page
          [\<lparr>f_target = by_selector ''#colour'', f_value = JStr ''Blue'', f_type = JStr ''select''\<rparr>])
     = [\<lparr>fr_target = by_selector ''#colour'', fr_ok = True, fr_error = None\<rparr>]
   \<and> document (fst (fillForm example_engine form_page
          [\<lparr>f_target = by_selector ''#colour'', f_value = JStr ''Blue'', f_type = JStr ''select''\<rparr>]))
     = document form_page
   \<and> effects (fst (fillForm example_engine form_page
          [\<lparr>f_target = by_selector ''#colour'', f_value = JStr ''Blue'', f_type = JStr ''select''\<rparr>]))
     = effects form_page @ [Focused [1, 2]]"
proof -
  let ?f = "\<lparr>f_target = by_selector ''#colour'', f_value = JStr ''Blue'', f_type = JStr ''select''\<rparr>"
  let ?opts = "[\<lparr>opt_value = ''r'', opt_text = ''Red'', opt_selected = True\<rparr>,
               \<lparr>opt_value = ''g'', opt_text = ''Green'', opt_selected = False\<rparr>]"
  have a: "resolveTarget example_engine (document form_page) (f_target ?f) = Inr [1, 2]"
    by code_simp
  have b: "f_type ?f = JStr ''select''"
    by simp
  have c: "el_options (edata_of (element_at (document form_page) [1, 2])) = Some ?opts"
    by code_simp
  have d: "\<forall>opt \<in> set ?opts. \<not> option_matches (f_value ?f) opt"
    by (simp add: option_matches_def)
  from select_without_match_reports_ok [OF a b c d] show ?thesis
    by simp
qed

lemma fillForm_Cons:
  "fillForm B pg (f # fs) =
     (fst (fillForm B (fst (fill_field B pg f)) fs),
      (case snd (fill_field B pg f) of
         Inr u \<Rightarrow> \<lparr>fr_target = f_target f, fr_ok = True, fr_error = None\<rparr>
       | Inl err \<Rightarrow> \<lparr>fr_target = f_target f, fr_ok = False, fr_error = Some (message err)\<rparr>)
      # snd (fillForm B (fst (fill_field B pg f)) fs))"
  by (simp add: Let_def split: prod.splits)

lemma fillForm_length: "length (snd (fillForm B pg fs)) = length fs"
  by (induction fs arbitrary: pg) (simp_all add: fillForm_Cons del: fillForm.simps(2))

lemma fillForm_targets: "map fr_target (snd (fillForm B pg fs)) = map f_target fs"
  by (induction fs arbitrary: pg)
     (simp_all add: fillForm_Cons del: fillForm.simps(2) split: sum.splits)

lemma fillForm_entries:
  "r \<in> set (snd (fillForm B pg fs)) \<Longrightarrow> fr_ok r = (fr_error r = None)"
  by (induction fs arbitrary: pg)
     (auto simp add: fillForm_Cons simp del: fillForm.simps(2) split: sum.splits)

lemma fillForm_append:
  "fillForm B pg (fs @ gs) =
     (fst (fillForm B (fst (fillForm B pg fs)) gs),
      snd (fillForm B pg fs) @ snd (fillForm B (fst (fillForm B pg fs)) gs))"
  by (induction fs arbitrary: pg) (simp_all add: fillForm_Cons del: fillForm.simps(2))

lemma fill_field_unresolved:
  "resolveTarget B (document pg) (f_target f) = Inl err \<Longrightarrow> fill_field B pg f = (pg, Inl err)"
  by (simp add: fill_field_def)

text \<open>
  C7. \<^verbatim>\<open>fillForm\<close> is total on lists of fields and returns one entry for each field, in
  the order of the fields and with the field's target; an entry is \<^verbatim>\<open>ok\<close> exactly when it
  has no error message. The fields are processed one after the other, each on the page
  the earlier ones left: the result for a list is the result for its first part followed
  by the result for the rest. A field whose target does not resolve gives an entry with
  \<^verbatim>\<open>ok: false\<close> and the message of the error, leaves the page as it is, and the remaining
  fields are processed as if it had not been there.
\<close>

theorem fillForm_one_entry_per_field:
  "length (snd (fillForm B pg fs)) = length fs
   \<and> map fr_target (snd (fillForm B pg fs)) = map f_target fs
   \<and> (\<forall>r \<in> set (snd (fillForm B pg fs)). fr_ok r = (fr_error r = None))
   \<and> fillForm B pg (fs @ gs) =
       (fst (fillForm B (fst (fillForm B pg fs)) gs),
        snd (fillForm B pg fs) @ snd (fillForm B (fst (fillForm B pg fs)) gs))
   \<and> (\<forall>err. resolveTarget B (document pg) (f_target f) = Inl err \<longrightarrow>
         fillForm B pg (f # gs) =
           (fst (fillForm B pg gs),
            \<lparr>fr_target = f_target f, fr_ok = False, fr_error = Some (message err)\<rparr>
            # snd (fillForm B pg gs)))"
  using fillForm_length [of B pg fs] fillForm_targets [of B pg fs]
    fillForm_entries [of _ B pg fs] fillForm_append [of B pg fs gs]
  by (auto simp: fillForm_Cons fill_field_unresolved simp del: fillForm.simps(2))

theorem fillForm_one_entry_per_field_witness:
  "map fr_ok (snd (fillForm example_engine form_page
      [\<lparr>f_target = by_selector ''#nowhere'', f_value = JStr ''x'', f_type = JUndefined\<rparr>,
       \<lparr>f_target = by_selector ''#name'', f_value = JStr ''Alice'', f_type = JUndefined\<rparr>]))
     = [False, True]
   \<and> map fr_error (snd (fillForm example_engine form_page
      [\<lparr>f_target = by_selector ''#nowhere'', f_value = JStr ''x'', f_type = JUndefined\<rparr>,
       \<lparr>f_target = by_selector ''#name'', f_value = JStr ''Alice'', f_type = JUndefined\<rparr>]))
     = [Some (''No element matching '' @ dquote @ ''#nowhere'' @ dquote), None]"
proof -
  let ?bad = "\<lparr>f_target = by_selector ''#nowhere'', f_value = JStr ''x'', f_type = JUndefined\<rparr>"
  let ?good = "\<lparr>f_target = by_selector ''#name'', f_value = JStr ''Alice'', f_type = JUndefined\<rparr>"
  have a: "resolveTarget example_engine (document form_page) (f_target ?bad)
             = Inl (NoElementMatching (JStr ''#nowhere''))"
    by code_simp
  have b: "map fr_ok (snd (fillForm example_engine form_page [?good])) = [True]"
    by code_simp
  have c: "map fr_error (snd (fillForm example_engine form_page [?good])) = [None]"
    by code_simp
  from fillForm_one_entry_per_field [of example_engine form_page "[]" "[?good]" ?bad] a b c
  show ?thesis
    by simp
qed

subsection \<open>Waiting for a selector\<close>

lemma wait_start_inv: "wait_start B d sel = Inr w \<Longrightarrow> wait_inv w"
  by (auto simp: wait_start_def wait_inv_def resolve_def Let_def split: sum.splits option.splits)

lemma wait_step_inv: "wait_inv w \<Longrightarrow> wait_inv (wait_step B sel ev w)"
  by (cases ev)
     (auto simp: wait_step_def wait_inv_def resolve_def Let_def split: sum.splits option.splits)

lemma wait_fold_inv: "wait_inv w \<Longrightarrow> wait_inv (fold (wait_step B sel) evs w)"
  by (induction evs arbitrary: w) (simp_all add: wait_step_inv)

lemma wait_step_settled:
  "settled w = Some r \<Longrightarrow> settled (wait_step B sel ev w) = Some r"
  by (cases ev)
     (auto simp: wait_step_def resolve_def Let_def split: sum.splits option.splits)

lemma wait_fold_settled:
  "settled w = Some r \<Longrightarrow> settled (fold (wait_step B sel) evs w) = Some r"
  by (induction evs arbitrary: w) (simp_all add: wait_step_settled)

lemma wait_step_timer_gone:
  "\<not> timer_pending w \<Longrightarrow> \<not> timer_pending (wait_step B sel ev w)"
  by (cases ev)
     (auto simp: wait_step_def resolve_def Let_def split: sum.splits option.splits)

lemma wait_fold_timer_gone:
  "\<not> timer_pending w \<Longrightarrow> \<not> timer_pending (fold (wait_step B sel) evs w)"
  by (induction evs arbitrary: w) (simp_all add: wait_step_timer_gone)

lemma wait_timer_fired:
  "TimerFired \<in> set evs \<Longrightarrow> \<not> timer_pending (fold (wait_step B sel) evs w)"
proof (induction evs arbitrary: w)
  case Nil
  then show ?case by simp
next
  case (Cons ev evs)
  show ?case
  proof (cases "ev = TimerFired")
    case True
    have "\<not> timer_pending (wait_step B sel TimerFired w)"
      by (simp add: wait_step_def resolve_def)
    from wait_fold_timer_gone [OF this] True show ?thesis by simp
  next
    case False
    with Cons.prems have "TimerFired \<in> set evs" by simp
    from Cons.IH [OF this] show ?thesis by simp
  qed
qed

text \<open>
  C8. For a valid selector and any sequence of observer notifications and timer events:
  the observer is connected exactly while the promise is unsettled, so it is released on
  the path of success and on the path of the time-out alike; once the timer has fired the
  promise is settled and the observer is gone; a promise that is settled keeps its value
  under every continuation of the events, so the side that settles first decides the one
  result; \<^verbatim>\<open>resolve\<close> is called at most twice, and only its first call counts.
\<close>

theorem waitForSelector_settles_once:
  assumes "waitForSelector B d sel t evs = Inr w"
  shows "(observing w \<longleftrightarrow> settled w = None)
         \<and> (TimerFired \<in> set evs \<longrightarrow> settled w \<noteq> None \<and> \<not> observing w)
         \<and> (\<forall>more w'. waitForSelector B d sel t (evs @ more) = Inr w' \<longrightarrow> settled w \<noteq> None
               \<longrightarrow> settled w' = settled w \<and> \<not> observing w')
         \<and> (settled w = None \<longleftrightarrow> resolve_calls w = 0) \<and> resolve_calls w \<le> 2"
proof -
  from assms obtain w0 where w0: "wait_start B d sel = Inr w0"
    and w: "w = fold (wait_step B sel) evs w0"
    by (auto simp: waitForSelector_def split: sum.splits)
  have inv: "wait_inv w"
    unfolding w by (rule wait_fold_inv [OF wait_start_inv [OF w0]])
  have timer: "settled w \<noteq> None \<and> \<not> observing w" if "TimerFired \<in> set evs"
    using wait_timer_fired [OF that, of B sel w0] inv
    by (auto simp: w wait_inv_def)
  have later: "settled w' = settled w \<and> \<not> observing w'"
    if "waitForSelector B d sel t (evs @ more) = Inr w'" and "settled w \<noteq> None" for more w'
  proof -
    from that(1) w0 w have w': "w' = fold (wait_step B sel) more w"
      by (simp add: waitForSelector_def)
    from that(2) obtain r where r: "settled w = Some r" by blast
    have "settled w' = Some r"
      unfolding w' by (rule wait_fold_settled [OF r])
    moreover have "wait_inv w'"
      unfolding w' by (rule wait_fold_inv [OF inv])
    ultimately show ?thesis
      using r by (auto simp: wait_inv_def)
  qed
  from inv timer later show ?thesis
    by (auto simp: wait_inv_def)
qed


theorem waitForSelector_settles_once_witness:
  "\<exists>w. waitForSelector example_engine (document empty_body_page) (JStr ''#late'') None
          [Mutated (document empty_body_page), Mutated late_page, TimerFired] = Inr w
       \<and> settled w = Some True \<and> \<not> observing w \<and> resolve_calls w = 2"
proof -
  let ?w = "\<lparr>w_document = late_page, observing = False, timer_pending = False,
              settled = Some True, resolve_calls = 2\<rparr>"
  have a: "waitForSelector example_engine (document empty_body_page) (JStr ''#late'') None
          [Mutated (document empty_body_page), Mutated late_page, TimerFired] = Inr ?w"
    by code_simp
  from waitForSelector_settles_once [OF a] a show ?thesis
    by simp
qed

subsection \<open>The message handler\<close>

text \<open>
  C4, as stated: no response with \<^verbatim>\<open>ok: false\<close> lacks an error string. The response to
  \<^verbatim>\<open>WAIT_FOR_SELECTOR\<close> after a time-out is \<^verbatim>\<open>{ok: false, timedOut: true}\<close>, without one.
\<close>

theorem wait_timeout_without_error_counterexample:
  "snd (onMessage example_engine [] form_page (WAIT_FOR_SELECTOR (JStr ''#late'') None))
     = \<lparr>resp_ok = False, resp_error = None, resp_fields = Some (TimedOut True)\<rparr>"
  by code_simp

lemma handle_shapes:
  assumes "handle B future pg msg = (pg1, Inr r)"
  shows "(resp_ok r \<and> resp_error r = None \<and> resp_fields r \<noteq> None)
         \<or> (\<exists>t. msg = Other t \<and> r = failure (''Unknown message type: '' @ String_js t))
         \<or> ((\<exists>sel t. msg = WAIT_FOR_SELECTOR sel t)
             \<and> r = \<lparr>resp_ok = False, resp_error = None, resp_fields = Some (TimedOut True)\<rparr>)"
  using assms
  by (cases msg)
     (auto simp: handle_def success_def Let_def map_sum_def
           split: sum.splits prod.splits option.splits if_splits)

text \<open>
  C4, amended. For every command the listener answers with a success payload, or with a
  failure \<^verbatim>\<open>{ok: false, error: message}\<close>, or, for \<^verbatim>\<open>WAIT_FOR_SELECTOR\<close> alone and on a
  time-out, with \<^verbatim>\<open>{ok: false, timedOut: true}\<close>, which carries no error. An unknown type
  gives a failure that names the type, and whatever a handler throws becomes a failure
  with the message of the error.
\<close>

theorem onMessage_responses:
  "((resp_ok (snd (onMessage B future pg msg))
       \<and> resp_error (snd (onMessage B future pg msg)) = None
       \<and> resp_fields (snd (onMessage B future pg msg)) \<noteq> None)
     \<or> (\<exists>m. snd (onMessage B future pg msg) = failure m)
     \<or> ((\<exists>sel t. msg = WAIT_FOR_SELECTOR sel t)
         \<and> snd (onMessage B future pg msg)
             = \<lparr>resp_ok = False, resp_error = None, resp_fields = Some (TimedOut True)\<rparr>))
   \<and> snd (onMessage B future pg (Other t)) = failure (''Unknown message type: '' @ String_js t)
   \<and> (\<forall>pg1 err. handle B future pg msg = (pg1, Inl err) \<longrightarrow>
         onMessage B future pg msg = (pg1, failure (message err)))"
proof (intro conjI)
  obtain pg1 res where h: "handle B future pg msg = (pg1, res)"
    by (cases "handle B future pg msg")
  show "(resp_ok (snd (onMessage B future pg msg))
       \<and> resp_error (snd (onMessage B future pg msg)) = None
       \<and> resp_fields (snd (onMessage B future pg msg)) \<noteq> None)
     \<or> (\<exists>m. snd (onMessage B future pg msg) = failure m)
     \<or> ((\<exists>sel t. msg = WAIT_FOR_SELECTOR sel t)
         \<and> snd (onMessage B future pg msg)
             = \<lparr>resp_ok = False, resp_error = None, resp_fields = Some (TimedOut True)\<rparr>)"
  proof (cases res)
    case (Inl err)
    with h have "snd (onMessage B future pg msg) = failure (message err)"
      by (simp add: onMessage_def)
    then show ?thesis by blast
  next
    case (Inr r)
    with h have r: "snd (onMessage B future pg msg) = r"
      by (simp add: onMessage_def)
    from handle_shapes [of B future pg msg pg1 r] h Inr show ?thesis
      unfolding r by blast
  qed
  show "snd (onMessage B future pg (Other t)) = failure (''Unknown message type: '' @ String_js t)"
    by (simp add: onMessage_def handle_def)
  show "\<forall>pg1 err. handle B future pg msg = (pg1, Inl err) \<longrightarrow>
         onMessage B future pg msg = (pg1, failure (message err))"
    by (simp add: onMessage_def)
qed

theorem onMessage_responses_witness:
  "snd (onMessage example_engine [] form_page (CLICK_ELEMENT (by_mark (JNum 99)) Omitted))
     = failure ''No element with mark 99''
   \<and> snd (onMessage example_engine [] form_page (Other (JStr ''DANCE'')))
     = failure ''Unknown message type: DANCE''"
proof -
  have a: "handle example_engine [] form_page (CLICK_ELEMENT (by_mark (JNum 99)) Omitted)
             = (form_page, Inl (NoElementWithMark (JNum 99)))"
    by code_simp
  have b: "message (NoElementWithMark (JNum 99)) = ''No element with mark 99''"
    by code_simp
  from onMessage_responses [of example_engine "[]" form_page
      "CLICK_ELEMENT (by_mark (JNum 99)) Omitted" "JStr ''DANCE''"] a b
  show ?thesis by simp
qed

subsection \<open>The element list under changes of the tree\<close>

lemma elems_from_split:
  "i < length cs \<Longrightarrow> cs ! i = ElementNode c \<Longrightarrow>
     elems_from k cs =
       elems_from k (take i cs) @ map ((#) (k + i)) (elems c) @ elems_from (Suc (k + i)) (drop (Suc i) cs)"
proof (induction cs arbitrary: k i)
  case Nil
  then show ?case by simp
next
  case (Cons a cs)
  show ?case
  proof (cases i)
    case 0
    with Cons.prems show ?thesis by simp
  next
    case (Suc j)
    with Cons.prems have j: "j < length cs" "cs ! j = ElementNode c" by simp_all
    from Cons.IH [OF j, of "Suc k"] Suc show ?thesis
      by (cases a) simp_all
  qed
qed

lemma elems_from_replace:
  assumes "i < length cs" and "cs ! i = ElementNode c"
  shows "elems_from k (cs[i := ElementNode c']) =
       elems_from k (take i cs) @ map ((#) (k + i)) (elems c') @ elems_from (Suc (k + i)) (drop (Suc i) cs)"
proof -
  have "i < length (cs[i := ElementNode c'])" "(cs[i := ElementNode c']) ! i = ElementNode c'"
    using assms(1) by simp_all
  from elems_from_split [OF this, of k] show ?thesis
    by (simp add: drop_update_cancel)
qed

lemma elems_map_edata: "elems (map_edata f x) = elems x"
  by (cases x) simp

lemma elems_update_at: "elems (update_at p f d) = elems d"
  unfolding update_at_def
proof (induction p arbitrary: d)
  case Nil
  show ?case by (simp add: elems_map_edata)
next
  case (Cons i p)
  obtain e cs where d: "d = Element e cs" by (cases d)
  show ?case
  proof (cases "i < length cs")
    case False
    with d show ?thesis by simp
  next
    case True
    show ?thesis
    proof (cases "cs ! i")
      case (TextNode s)
      with d True show ?thesis by simp
    next
      case (ElementNode c)
      from elems_from_replace [OF True ElementNode, of 0 "modify p (map_edata f) c"]
        elems_from_split [OF True ElementNode, of 0] Cons.IH [of c] d True ElementNode
      show ?thesis by simp
    qed
  qed
qed

lemma data_at_Nil: "data_at d [] = Some (edata_of d)"
  by (simp add: data_at_def)

lemma data_at_update_at_other:
  "q \<noteq> p \<Longrightarrow> data_at (update_at p f d) q = data_at d q"
  unfolding update_at_def data_at_def
proof (induction p arbitrary: d q)
  case Nil
  then obtain i q' where "q = i # q'" by (cases q) auto
  then show ?case by (cases d) simp
next
  case (Cons j p)
  obtain e cs where d: "d = Element e cs" by (cases d)
  show ?case
  proof (cases q)
    case Nil
    with d show ?thesis by (simp split: child.splits)
  next
    case (Cons i q')
    show ?thesis
    proof (cases "i = j")
      case False
      with d Cons show ?thesis by (simp split: child.splits)
    next
      case True
      with Cons Cons.prems have "q' \<noteq> p" by simp
      from Cons.IH [OF this] d Cons True show ?thesis
        by (simp split: child.splits)
    qed
  qed
qed

lemma modify_nowhere: "get d p = None \<Longrightarrow> modify p g d = d"
proof (induction p arbitrary: d)
  case Nil
  then show ?case by simp
next
  case (Cons i p)
  obtain e cs where d: "d = Element e cs" by (cases d)
  with Cons show ?case
    by (auto split: child.splits if_splits simp: list_update_same_conv)
qed

lemma data_at_update_at_same:
  "data_at (update_at p f d) p = map_option f (data_at d p)"
proof (cases "get d p")
  case None
  then show ?thesis
    by (simp add: update_at_def data_at_def modify_nowhere)
next
  case (Some x)
  from get_update_at_same [OF this, of f] Some show ?thesis
    by (simp add: data_at_def edata_of_map_edata)
qed

lemma data_at_update_at:
  "data_at (update_at p f d) q = (if q = p then map_option f (data_at d p) else data_at d q)"
  by (simp add: data_at_update_at_same data_at_update_at_other)

lemma holds_update_at:
  "holds (update_at p f d) P q = (if q = p then holds d (P \<circ> f) p else holds d P q)"
  by (auto simp: holds_def data_at_update_at split: option.splits)

lemma elems_fold_update_at: "elems (fold (\<lambda>p. update_at p f) ps d) = elems d"
  by (induction ps arbitrary: d) (simp_all add: elems_update_at)

lemma data_at_fold_update_at:
  assumes "\<And>e. f (f e) = f e"
  shows "data_at (fold (\<lambda>p. update_at p f) ps d) q =
           (if q \<in> set ps then map_option f (data_at d q) else data_at d q)"
proof (induction ps arbitrary: d)
  case Nil
  show ?case by simp
next
  case (Cons p ps)
  show ?case
    using assms by (auto simp: Cons.IH data_at_update_at option.map_comp comp_def)
qed

lemma elems_get_update_at:
  "map_option elems (get (update_at q f d) p) = map_option elems (get d p)"
  unfolding update_at_def
proof (induction q arbitrary: d p)
  case Nil
  show ?case
  proof (cases p)
    case Nil
    then show ?thesis by (simp add: elems_map_edata)
  next
    case (Cons i p')
    then show ?thesis by (cases d) simp
  qed
next
  case (Cons j q)
  obtain e cs where d: "d = Element e cs" by (cases d)
  show ?case
  proof (cases p)
    case Nil
    have "elems (update_at (j # q) f d) = elems d" by (rule elems_update_at)
    with Nil show ?thesis by (simp add: update_at_def)
  next
    case (Cons i p')
    show ?thesis
    proof (cases "i = j")
      case False
      with d Cons show ?thesis by (simp split: child.splits)
    next
      case True
      with Cons.IH [of _ p'] d Cons show ?thesis
        by (simp split: child.splits)
    qed
  qed
qed

lemma scope_update_at: "scope (update_at q f d) r = scope d r"
proof (cases r)
  case DocumentRoot
  then show ?thesis by (simp add: scope_def elems_update_at)
next
  case (ElementRoot p)
  from elems_get_update_at [of q f d p] ElementRoot show ?thesis
    by (auto simp: scope_def split: option.splits)
qed

lemma scope_fold_update_at: "scope (fold (\<lambda>p. update_at p f) ps d) r = scope d r"
  by (induction ps arbitrary: d) (simp_all add: scope_update_at)

subsection \<open>Clearing the marks\<close>

lemma getAttribute_removeAttribute:
  "getAttribute (removeAttribute a e) b = (if b = a then None else getAttribute e b)"
  by (simp add: getAttribute_def removeAttribute_def delete_conv')

lemma removeAttribute_twice: "removeAttribute a (removeAttribute a e) = removeAttribute a e"
  by (simp add: removeAttribute_def delete_idem)

lemma data_at_clearSetOfMarks:
  "data_at (clearSetOfMarks r d) q =
     (if q \<in> set (scope d r) \<and> holds d has_mark q
      then map_option (removeAttribute MARK_ATTR) (data_at d q) else data_at d q)"
  unfolding clearSetOfMarks_def
  by (simp add: data_at_fold_update_at [where f = "removeAttribute MARK_ATTR", OF removeAttribute_twice])

lemma elems_clearSetOfMarks: "elems (clearSetOfMarks r d) = elems d"
  by (simp add: clearSetOfMarks_def elems_fold_update_at)

lemma scope_clearSetOfMarks: "scope (clearSetOfMarks r d) r' = scope d r'"
  by (simp add: clearSetOfMarks_def scope_fold_update_at)

lemma no_mark_in_scope:
  "q \<in> set (scope d r) \<Longrightarrow> \<not> holds (clearSetOfMarks r d) has_mark q"
  by (auto simp: holds_def data_at_clearSetOfMarks has_mark_def getAttribute_removeAttribute
        split: option.splits)

lemma of_char_digit_char: "d < 10 \<Longrightarrow> of_char (digit_char d) = 48 + d"
  by (simp add: digit_char_def)







subsection \<open>The elements of a document are distinct\<close>

lemma elems_from_head: "p \<in> set (elems_from i cs) \<Longrightarrow> \<exists>j q. p = j # q \<and> i \<le> j"
  using elems_from_shape [of p i cs] by auto

lemma distinct_elems: "distinct (elems el)"
  and distinct_elems_from: "distinct (elems_from i cs)"
proof (induction el and i cs rule: elems_elems_from.induct)
  case (1 e cs)
  have "[] \<notin> set (elems_from 0 cs)"
    using elems_from_head [of "[]" 0 cs] by auto
  with 1 show ?case by simp
next
  case (2 i)
  show ?case by simp
next
  case (3 i s cs)
  then show ?case by simp
next
  case (4 i el cs)
  have "p \<notin> set (elems_from (Suc i) cs)" if "p \<in> set (map ((#) i) (elems el))" for p
  proof
    assume "p \<in> set (elems_from (Suc i) cs)"
    from elems_from_head [OF this] obtain j q where "p = j # q" "Suc i \<le> j" by blast
    with that show False by auto
  qed
  then have "set (map ((#) i) (elems el)) \<inter> set (elems_from (Suc i) cs) = {}"
    by blast
  with 4 show ?case
    by (simp add: distinct_map)
qed

subsection \<open>Decimal numerals\<close>

lemma decimal_not_empty: "decimal n \<noteq> []"
  by (simp add: decimal.simps [of n])

lemma digit_char_inject:
  assumes "a < 10" and "b < 10" and "digit_char a = digit_char b"
  shows "a = b"
proof -
  have "(of_char (digit_char a) :: nat) = of_char (digit_char b)"
    by (simp only: assms(3))
  then have "48 + a = 48 + b"
    by (simp only: of_char_digit_char [OF assms(1)] of_char_digit_char [OF assms(2)])
  then show ?thesis by simp
qed

lemma decimal_inject: "decimal n = decimal m \<Longrightarrow> n = m"
proof (induction n arbitrary: m rule: decimal.induct)
  case (1 n)
  show ?case
  proof (cases "n < 10")
    case n: True
    show ?thesis
    proof (cases "m < 10")
      case True
      with n "1.prems" show ?thesis
        by (simp add: decimal.simps [of n] decimal.simps [of m] digit_char_inject)
    next
      case False
      with n "1.prems" decimal_not_empty [of "m div 10"] show ?thesis
        by (simp add: decimal.simps [of n] decimal.simps [of m])
    qed
  next
    case n: False
    show ?thesis
    proof (cases "m < 10")
      case True
      with n "1.prems" decimal_not_empty [of "n div 10"] show ?thesis
        by (simp add: decimal.simps [of n] decimal.simps [of m])
    next
      case False
      with n "1.prems" have eq: "decimal (n div 10) = decimal (m div 10)"
        and dg: "digit_char (n mod 10) = digit_char (m mod 10)"
        by (simp_all add: decimal.simps [of n] decimal.simps [of m])
      from "1.IH" [OF n eq] have "n div 10 = m div 10" .
      moreover from dg have "n mod 10 = m mod 10"
        by (simp add: digit_char_inject)
      ultimately show ?thesis
        by (metis div_mult_mod_eq)
    qed
  qed
qed

subsection \<open>Appending a child\<close>

lemma elems_from_append_child:
  "elems_from k (cs @ [ElementNode c]) = elems_from k cs @ map ((#) (k + length cs)) (elems c)"
proof (induction cs arbitrary: k)
  case Nil
  show ?case by simp
next
  case (Cons a cs)
  from Cons [of "Suc k"] show ?case by (cases a) simp_all
qed

lemma append_singleton_fun: "(@) [n] = (#) n"
  by (rule ext) simp

lemma elems_modify_append:
  assumes "get d h = Some x"
  shows "\<exists>xs1 xs2. elems d = xs1 @ xs2
           \<and> elems (modify h (appendChild (ElementNode c)) d)
               = xs1 @ map ((@) (h @ [length (childNodes x)])) (elems c) @ xs2"
  using assms
proof (induction h arbitrary: d)
  case Nil
  then have x: "x = d" by simp
  obtain e cs where d: "d = Element e cs" by (cases d)
  have "elems (modify [] (appendChild (ElementNode c)) d)
          = elems d @ map ((@) ([] @ [length (childNodes x)])) (elems c) @ []"
    using x d by (simp add: elems_from_append_child append_singleton_fun)
  then show ?case by (intro exI [of _ "elems d"] exI [of _ "[]"]) simp
next
  case (Cons i h)
  obtain e cs where d: "d = Element e cs" by (cases d)
  with Cons.prems obtain ci where ci: "i < length cs" "cs ! i = ElementNode ci" "get ci h = Some x"
    by (auto split: if_splits child.splits)
  from Cons.IH [OF ci(3)] obtain a1 a2 where a: "elems ci = a1 @ a2"
    and a': "elems (modify h (appendChild (ElementNode c)) ci)
               = a1 @ map ((@) (h @ [length (childNodes x)])) (elems c) @ a2"
    by blast
  let ?pre = "elems_from 0 (take i cs)" and ?post = "elems_from (Suc i) (drop (Suc i) cs)"
  have 1: "elems d = ([] # ?pre @ map ((#) i) a1) @ (map ((#) i) a2 @ ?post)"
    using d elems_from_split [OF ci(1,2), of 0] a by simp
  have 2: "elems (modify (i # h) (appendChild (ElementNode c)) d)
             = ([] # ?pre @ map ((#) i) a1)
               @ map ((@) ((i # h) @ [length (childNodes x)])) (elems c)
               @ (map ((#) i) a2 @ ?post)"
    using d ci(1,2) elems_from_replace [OF ci(1,2), of 0] a'
    by (simp add: comp_def)
  from 1 2 show ?case by blast
qed

lemma data_at_modify_append:
  "get d q = Some y \<Longrightarrow> data_at (modify h (appendChild c) d) q = Some (edata_of y)"
proof (induction h arbitrary: d q)
  case Nil
  obtain e cs where d: "d = Element e cs" by (cases d)
  show ?case
  proof (cases q)
    case Nil
    with Nil.prems show ?thesis unfolding d by (auto simp: data_at_def)
  next
    case (Cons i q')
    with Nil.prems show ?thesis unfolding d
      by (auto simp: data_at_def nth_append split: if_splits child.splits)
  qed
next
  case (Cons j h)
  obtain e cs where d: "d = Element e cs" by (cases d)
  show ?case
  proof (cases q)
    case Nil
    with Cons.prems d show ?thesis by (auto simp: data_at_def split: child.splits)
  next
    case q: (Cons i q')
    show ?thesis
    proof (cases "i = j")
      case False
      with Cons.prems d q show ?thesis
        by (auto simp: data_at_def split: if_splits child.splits)
    next
      case True
      with Cons.prems d q obtain cj where cj: "j < length cs" "cs ! j = ElementNode cj" "get cj q' = Some y"
        by (auto split: if_splits child.splits)
      from Cons.IH [OF cj(3)] d q True cj(1,2) show ?thesis
        by (simp add: data_at_def)
    qed
  qed
qed

lemma get_append_path:
  "get d (p @ r) = (case get d p of None \<Rightarrow> None | Some y \<Rightarrow> get y r)"
proof (induction p arbitrary: d)
  case Nil
  show ?case by simp
next
  case (Cons i p)
  obtain e cs where d: "d = Element e cs" by (cases d)
  with Cons show ?case by (simp split: child.splits)
qed

lemma get_appended_child:
  assumes "get d h = Some x"
  shows "get (modify h (appendChild (ElementNode c)) d) (h @ [length (childNodes x)]) = Some c"
proof -
  obtain e cs where x: "x = Element e cs" by (cases x)
  from get_modify_same [OF assms, of "appendChild (ElementNode c)"] x show ?thesis
    by (simp add: get_append_path)
qed

subsection \<open>The style sheet\<close>

lemma elems_style_element: "elems style_element = [[]]"
  by (simp add: style_element_def)

lemma style_element_not_interactive: "\<not> interactive_selector (edata_of style_element)"
  by (simp add: style_element_def interactive_selector_def INTERACTIVE_TAGS_def getAttribute_def)

lemma style_element_no_mark: "\<not> has_mark (edata_of style_element)"
  by (simp add: style_element_def has_mark_def getAttribute_def MARK_ATTR_def)

lemma head_in_document:
  "\<exists>x. get d (case document_head d of Some h \<Rightarrow> h | None \<Rightarrow> []) = Some x"
proof (cases "document_head d")
  case None
  then show ?thesis by simp
next
  case (Some h)
  obtain e cs where d: "d = Element e cs" by (cases d)
  from Some obtain i where i: "h = [i]" "i < length cs" "is_head (cs ! i)"
    by (auto simp: document_head_def d find_Some_iff split: if_splits)
  then obtain c where "cs ! i = ElementNode c"
    by (auto simp: is_head_def split: child.splits)
  with i d Some show ?thesis by simp
qed

lemma holds_cong_data: "data_at d' q = data_at d q \<Longrightarrow> holds d' P q = holds d P q"
  by (simp add: holds_def)

lemma ensureMarkStyles_cases:
  obtains (same) "ensureMarkStyles d = d"
  | (added) h x xs1 xs2 where "get d h = Some x"
      "ensureMarkStyles d = modify h (appendChild (ElementNode style_element)) d"
      "elems d = xs1 @ xs2"
      "elems (ensureMarkStyles d) = xs1 @ [h @ [length (childNodes x)]] @ xs2"
      "data_at (ensureMarkStyles d) (h @ [length (childNodes x)]) = Some (edata_of style_element)"
proof (cases "getElementById d MARK_STYLE_ID \<noteq> None")
  case True
  then have "ensureMarkStyles d = d" by (simp add: ensureMarkStyles_def)
  then show ?thesis by (rule same)
next
  case False
  let ?h = "case document_head d of Some h \<Rightarrow> h | None \<Rightarrow> []"
  from head_in_document obtain x where x: "get d ?h = Some x" by blast
  from False have e: "ensureMarkStyles d = modify ?h (appendChild (ElementNode style_element)) d"
    by (simp add: ensureMarkStyles_def)
  from elems_modify_append [OF x, of style_element] obtain xs1 xs2 where
    xs: "elems d = xs1 @ xs2"
    "elems (modify ?h (appendChild (ElementNode style_element)) d)
       = xs1 @ map ((@) (?h @ [length (childNodes x)])) (elems style_element) @ xs2"
    by blast
  have n: "data_at (ensureMarkStyles d) (?h @ [length (childNodes x)]) = Some (edata_of style_element)"
    unfolding e data_at_def using get_appended_child [OF x, of style_element] by simp
  from xs(2) have el: "elems (ensureMarkStyles d) = xs1 @ [?h @ [length (childNodes x)]] @ xs2"
    by (simp add: e elems_style_element)
  show ?thesis by (rule added [OF x e xs(1) el n])
qed

lemma data_at_ensureMarkStyles:
  assumes "q \<in> set (elems d)"
  shows "data_at (ensureMarkStyles d) q = data_at d q"
proof -
  from elems_in_document [OF assms] obtain y where y: "get d q = Some y" by blast
  show ?thesis
  proof (cases d rule: ensureMarkStyles_cases)
    case same
    then show ?thesis by simp
  next
    case (added h x xs1 xs2)
    from data_at_modify_append [OF y, of h "ElementNode style_element"] y added(2)
    show ?thesis by (simp add: data_at_def)
  qed
qed

lemma elems_ensureMarkStyles:
  assumes "q \<in> set (elems (ensureMarkStyles d))"
  shows "q \<in> set (elems d) \<or> data_at (ensureMarkStyles d) q = Some (edata_of style_element)"
proof (cases d rule: ensureMarkStyles_cases)
  case same
  with assms show ?thesis by simp
next
  case (added h x xs1 xs2)
  with assms show ?thesis by auto
qed

lemma old_elems_ensureMarkStyles: "q \<in> set (elems d) \<Longrightarrow> q \<in> set (elems (ensureMarkStyles d))"
  by (cases d rule: ensureMarkStyles_cases) auto

lemma filter_holds_ensureMarkStyles:
  assumes "\<not> P (edata_of style_element)"
  shows "filter (holds (ensureMarkStyles d) P) (elems (ensureMarkStyles d))
           = filter (holds d P) (elems d)"
proof (cases d rule: ensureMarkStyles_cases)
  case same
  then show ?thesis by simp
next
  case (added h x xs1 xs2)
  have old: "holds (ensureMarkStyles d) P q = holds d P q" if "q \<in> set (elems d)" for q
    using data_at_ensureMarkStyles [OF that] by (rule holds_cong_data)
  have 1: "filter (holds (ensureMarkStyles d) P) xs1 = filter (holds d P) xs1"
    by (rule filter_cong) (simp_all add: old added(3))
  have 2: "filter (holds (ensureMarkStyles d) P) xs2 = filter (holds d P) xs2"
    by (rule filter_cong) (simp_all add: old added(3))
  have 3: "\<not> holds (ensureMarkStyles d) P (h @ [length (childNodes x)])"
    using assms by (simp add: holds_def added(5))
  from 1 2 3 show ?thesis
    by (simp add: added(3,4))
qed

lemma getInteractiveElements_ensureMarkStyles:
  "getInteractiveElements (ensureMarkStyles d) DocumentRoot = getInteractiveElements d DocumentRoot"
proof -
  have "filter (holds (ensureMarkStyles d) isVisible) (filter (holds d interactive_selector) (elems d))
          = filter (holds d isVisible) (filter (holds d interactive_selector) (elems d))"
  proof (rule filter_cong [OF refl])
    fix q assume "q \<in> set (filter (holds d interactive_selector) (elems d))"
    then have "q \<in> set (elems d)" by simp
    then show "holds (ensureMarkStyles d) isVisible q = holds d isVisible q"
      by (intro holds_cong_data data_at_ensureMarkStyles)
  qed
  then show ?thesis
    by (simp add: getInteractiveElements_def scope_def
          filter_holds_ensureMarkStyles [of interactive_selector, OF style_element_not_interactive])
qed

lemma interactive_selector_removeAttribute:
  "interactive_selector (removeAttribute MARK_ATTR e) = interactive_selector e"
proof -
  have "tagName (removeAttribute MARK_ATTR e) = tagName e"
    by (simp add: removeAttribute_def)
  moreover have "getAttribute (removeAttribute MARK_ATTR e) a = getAttribute e a"
    if "a \<noteq> MARK_ATTR" for a
    using that by (simp add: getAttribute_removeAttribute)
  moreover have "''role'' \<noteq> MARK_ATTR" "''contenteditable'' \<noteq> MARK_ATTR" "''tabindex'' \<noteq> MARK_ATTR"
    by (simp_all add: MARK_ATTR_def)
  ultimately show ?thesis
    by (simp add: interactive_selector_def)
qed

lemma isVisible_removeAttribute: "isVisible (removeAttribute a e) = isVisible e"
  by (simp add: isVisible_def removeAttribute_def)

lemma holds_clearSetOfMarks:
  assumes "\<And>e. P (removeAttribute MARK_ATTR e) = P e"
  shows "holds (clearSetOfMarks r d) P q = holds d P q"
  using assms by (auto simp: holds_def data_at_clearSetOfMarks split: option.splits)

lemma getInteractiveElements_clearSetOfMarks:
  "getInteractiveElements (clearSetOfMarks r d) r' = getInteractiveElements d r'"
  by (simp add: getInteractiveElements_def scope_clearSetOfMarks
        holds_clearSetOfMarks [of interactive_selector, OF interactive_selector_removeAttribute]
        holds_clearSetOfMarks [of isVisible, OF isVisible_removeAttribute])

subsection \<open>Applying the marks\<close>

lemma alist_update_fresh: "k \<notin> fst ` set al \<Longrightarrow> AList.update k v al = al @ [(k, v)]"
  by (induction al) auto

lemma snd_mark_each:
  assumes "\<forall>k \<in> fst ` set mm. \<exists>j. j \<le> idx \<and> k = decimal j"
  shows "snd (mark_each els idx (d, mm))
           = mm @ zip (map decimal [Suc idx..<Suc idx + length els]) els"
  using assms
proof (induction els arbitrary: idx d mm)
  case Nil
  show ?case by simp
next
  case (Cons el els)
  have fresh: "decimal (Suc idx) \<notin> fst ` set mm"
  proof
    assume "decimal (Suc idx) \<in> fst ` set mm"
    with Cons.prems obtain j where "j \<le> idx" "decimal (Suc idx) = decimal j" by blast
    with decimal_inject [of "Suc idx" j] show False by simp
  qed
  let ?mm = "mm @ [(decimal (Suc idx), el)]"
  have keys: "\<forall>k \<in> fst ` set ?mm. \<exists>j. j \<le> Suc idx \<and> k = decimal j"
  proof
    fix k assume "k \<in> fst ` set ?mm"
    then consider "k \<in> fst ` set mm" | "k = decimal (Suc idx)" by auto
    then show "\<exists>j. j \<le> Suc idx \<and> k = decimal j"
    proof cases
      case 1
      with Cons.prems obtain j where "j \<le> idx" "k = decimal j" by blast
      then show ?thesis by (intro exI [of _ j]) simp
    next
      case 2
      then show ?thesis by blast
    qed
  qed
  have upt: "[Suc idx..<Suc idx + length (el # els)]
               = Suc idx # [Suc (Suc idx)..<Suc (Suc idx) + length els]"
    by (simp add: upt_conv_Cons del: upt_Suc)
  from Cons.IH [OF keys, of "update_at el (setAttribute MARK_ATTR (decimal (Suc idx))) d"]
  show ?case
    unfolding upt by (simp add: alist_update_fresh [OF fresh] Let_def)
qed

lemma elems_mark_each: "elems (fst (mark_each els idx (d, mm))) = elems d"
  by (induction els arbitrary: idx d mm) (simp_all add: Let_def elems_update_at)

lemma data_at_mark_each_other:
  "q \<notin> set els \<Longrightarrow> data_at (fst (mark_each els idx (d, mm))) q = data_at d q"
  by (induction els arbitrary: idx d mm) (simp_all add: Let_def data_at_update_at_other)

lemma data_at_mark_each_nth:
  assumes "distinct els" and "i < length els"
  shows "data_at (fst (mark_each els idx (d, mm))) (els ! i)
           = map_option (setAttribute MARK_ATTR (decimal (Suc idx + i))) (data_at d (els ! i))"
  using assms
proof (induction els arbitrary: idx d mm i)
  case Nil
  then show ?case by simp
next
  case (Cons el els)
  show ?case
  proof (cases i)
    case 0
    from Cons.prems(1) have "el \<notin> set els" by simp
    from data_at_mark_each_other [OF this] 0 show ?thesis
      by (simp add: Let_def data_at_update_at_same)
  next
    case (Suc j)
    with Cons.prems have j: "distinct els" "j < length els" and ne: "els ! j \<noteq> el"
      by auto
    from Cons.IH [OF j] Suc ne show ?thesis
      by (simp add: Let_def data_at_update_at_other)
  qed
qed

lemma getAttribute_setAttribute: "getAttribute (setAttribute a v e) a = Some v"
  by (simp add: getAttribute_def setAttribute_def update_conv')

lemma distinct_getInteractiveElements: "distinct (getInteractiveElements d DocumentRoot)"
  by (simp add: getInteractiveElements_def scope_def distinct_elems)

lemma getInteractiveElements_in_elems:
  "q \<in> set (getInteractiveElements d DocumentRoot) \<Longrightarrow> q \<in> set (elems d)"
  by (simp add: getInteractiveElements_def scope_def)

lemma distinct_decimals: "distinct (map decimal [a..<b])"
  by (simp add: distinct_map inj_on_def decimal_inject)

text \<open>
  C2. Let a document have the visible qualifying elements \<open>qs\<close>, in document order, and
  let it carry any marks at all from earlier passes. After one pass of \<^verbatim>\<open>applySetOfMarks\<close>
  over the document, the registry has exactly the keys \<^verbatim>\<open>"1"\<close> to \<^verbatim>\<open>"K"\<close> for
  \<open>K = length qs\<close>, in this order, and maps the numeral of \<open>i\<close> to the \<open>i\<close>-th qualifying
  element; that element carries the numeral of \<open>i\<close> as its mark; and every element of
  the document that carries a mark afterwards is one of the qualifying elements, with the
  mark just assigned: nothing of an earlier assignment survives.
\<close>

theorem applySetOfMarks_dense_and_fresh:
  assumes "getInteractiveElements d DocumentRoot = qs"
    and "applySetOfMarks DocumentRoot d = (d', markMap)"
  shows "map fst markMap = map decimal [1..<Suc (length qs)]
         \<and> map snd markMap = qs
         \<and> (\<forall>i < length qs. map_of markMap (decimal (Suc i)) = Some (qs ! i))
         \<and> (\<forall>i < length qs.
               holds d' (\<lambda>e. getAttribute e MARK_ATTR = Some (decimal (Suc i))) (qs ! i))
         \<and> (\<forall>q \<in> set (elems d'). holds d' has_mark q \<longrightarrow> q \<in> set qs)"
proof -
  let ?d1 = "clearSetOfMarks DocumentRoot d"
  let ?d2 = "ensureMarkStyles ?d1"
  have els: "getInteractiveElements ?d2 DocumentRoot = qs"
    using assms(1)
    by (simp add: getInteractiveElements_ensureMarkStyles getInteractiveElements_clearSetOfMarks)
  from assms(2) have res: "mark_each qs 0 (?d2, []) = (d', markMap)"
    by (simp add: applySetOfMarks_def Let_def els)
  have mm: "markMap = zip (map decimal [1..<Suc (length qs)]) qs"
    using snd_mark_each [of "[]" 0 qs ?d2] res by simp
  have d': "d' = fst (mark_each qs 0 (?d2, []))"
    using res by simp
  have dist: "distinct qs"
    using distinct_getInteractiveElements [of d] assms(1) by simp
  have in_d: "q \<in> set (elems d)" if "q \<in> set qs" for q
    using getInteractiveElements_in_elems [of q d] assms(1) that by simp
  have keys: "map fst markMap = map decimal [1..<Suc (length qs)]"
    unfolding mm by (rule map_fst_zip) (simp del: upt_Suc)
  have vals: "map snd markMap = qs"
    unfolding mm by (rule map_snd_zip) (simp del: upt_Suc)
  have look: "map_of markMap (decimal (Suc i)) = Some (qs ! i)" if "i < length qs" for i
  proof -
    have "map_of (zip (map decimal [1..<Suc (length qs)]) qs) (map decimal [1..<Suc (length qs)] ! i)
            = Some (qs ! i)"
      by (rule map_of_zip_nth) (simp_all add: distinct_decimals that del: upt_Suc)
    moreover have "map decimal [1..<Suc (length qs)] ! i = decimal (Suc i)"
      using that by (simp del: upt_Suc)
    ultimately show ?thesis by (simp add: mm)
  qed
  have marked: "holds d' (\<lambda>e. getAttribute e MARK_ATTR = Some (decimal (Suc i))) (qs ! i)"
    if "i < length qs" for i
  proof -
    from that have q: "qs ! i \<in> set (elems d)" by (simp add: in_d)
    then have "qs ! i \<in> set (elems ?d1)" by (simp add: elems_clearSetOfMarks)
    from elems_in_document [OF this] data_at_ensureMarkStyles [OF this]
    obtain e where e: "data_at ?d2 (qs ! i) = Some e"
      by (auto simp: data_at_def)
    from data_at_mark_each_nth [OF dist that, of 0 ?d2 "[]"] e
    show ?thesis
      by (simp add: d' holds_def getAttribute_setAttribute)
  qed
  have fresh: "q \<in> set qs" if q: "q \<in> set (elems d')" and h: "holds d' has_mark q" for q
  proof (rule ccontr)
    assume n: "q \<notin> set qs"
    from data_at_mark_each_other [OF n] have same: "data_at d' q = data_at ?d2 q"
      by (simp add: d')
    from q have "q \<in> set (elems ?d2)"
      by (simp add: d' elems_mark_each)
    from elems_ensureMarkStyles [OF this] show False
    proof
      assume old: "q \<in> set (elems ?d1)"
      then have "q \<in> set (scope d DocumentRoot)"
        by (simp add: elems_clearSetOfMarks scope_def)
      from no_mark_in_scope [OF this] data_at_ensureMarkStyles [OF old] same h
      show False by (simp add: holds_def)
    next
      assume "data_at ?d2 q = Some (edata_of style_element)"
      with same h style_element_no_mark show False
        by (simp add: holds_def)
    qed
  qed
  from keys vals look marked fresh show ?thesis by blast
qed

theorem applySetOfMarks_dense_and_fresh_witness:
  "\<exists>d' markMap. applySetOfMarks DocumentRoot (document form_page) = (d', markMap)
     \<and> holds (document form_page) (\<lambda>e. getAttribute e MARK_ATTR = Some ''7'') [1, 3]
     \<and> holds (document form_page) (\<lambda>e. getAttribute e MARK_ATTR = Some ''2'') [1, 3, 0]
     \<and> map fst markMap = [''1'', ''2'', ''3'']
     \<and> map snd markMap = [[1, 0], [1, 2], [1, 3, 0]]
     \<and> holds d' (\<lambda>e. getAttribute e MARK_ATTR = Some ''3'') [1, 3, 0]
     \<and> \<not> holds d' has_mark [1, 3]"
proof -
  obtain d' markMap where r: "applySetOfMarks DocumentRoot (document form_page) = (d', markMap)"
    by (cases "applySetOfMarks DocumentRoot (document form_page)")
  have qs: "getInteractiveElements (document form_page) DocumentRoot = [[1, 0], [1, 2], [1, 3, 0]]"
    by code_simp
  have old: "holds (document form_page) (\<lambda>e. getAttribute e MARK_ATTR = Some ''7'') [1, 3]"
    "holds (document form_page) (\<lambda>e. getAttribute e MARK_ATTR = Some ''2'') [1, 3, 0]"
    by code_simp+
  have dec: "map decimal [1..<Suc (length [[1, 0], [1, 2], [1, 3, 0 :: nat]])] = [''1'', ''2'', ''3'']"
    "decimal (Suc 2) = ''3''"
    by code_simp+
  have "[1, 3] \<in> set (elems (document form_page))"
    by code_simp
  then have "[1, 3] \<in> set (elems (clearSetOfMarks DocumentRoot (document form_page)))"
    by (simp add: elems_clearSetOfMarks)
  then have "[1, 3] \<in> set (elems (ensureMarkStyles (clearSetOfMarks DocumentRoot (document form_page))))"
    by (rule old_elems_ensureMarkStyles)
  with r have el: "[1, 3] \<in> set (elems d')"
    using elems_mark_each [of "[[1, 0], [1, 2], [1, 3, 0]]" 0
            "ensureMarkStyles (clearSetOfMarks DocumentRoot (document form_page))" "[]"]
    by (simp add: applySetOfMarks_def Let_def getInteractiveElements_ensureMarkStyles
          getInteractiveElements_clearSetOfMarks qs)
  from applySetOfMarks_dense_and_fresh [OF qs r] have
    1: "map fst markMap = map decimal [1..<Suc (length [[1, 0], [1, 2], [1, 3, 0 :: nat]])]"
    and 2: "map snd markMap = [[1, 0], [1, 2], [1, 3, 0]]"
    and 3: "\<forall>i < length [[1, 0], [1, 2], [1, 3, 0 :: nat]].
               holds d' (\<lambda>e. getAttribute e MARK_ATTR = Some (decimal (Suc i)))
                 ([[1, 0], [1, 2], [1, 3, 0]] ! i)"
    and 4: "\<forall>q \<in> set (elems d'). holds d' has_mark q \<longrightarrow> q \<in> set [[1, 0], [1, 2], [1, 3, 0]]"
    by blast+
  from 3 have 5: "holds d' (\<lambda>e. getAttribute e MARK_ATTR = Some (decimal (Suc 2))) [1, 3, 0]"
    by (simp add: numeral_3_eq_3 All_less_Suc)
  from 4 el have 6: "\<not> holds d' has_mark [1, 3]"
    by auto
  from r old 1 2 5 6 dec show ?thesis
    by simp
qed

end
